theory Spec2Isabelle
  imports Complex_Main "HOL-Library.AList"
begin

section \<open>Numbers, errors and indexing as the Python code has them\<close>

text \<open>
  A Python \<^verbatim>\<open>float\<close> is modelled as an exact rational or the not-a-number value.
  Rounding and the infinities are outside the model; \<open>NaN\<close> is kept because the
  code tests for it (\<^verbatim>\<open>math.isnan\<close>) and because it is truthy and makes every
  comparison false.
\<close>

datatype pyfloat = Fin rat | NaN


fun fsub :: "pyfloat \<Rightarrow> pyfloat \<Rightarrow> pyfloat" where
  "fsub (Fin a) (Fin b) = Fin (a - b)"
| "fsub _ _ = NaN"

fun fmul :: "pyfloat \<Rightarrow> pyfloat \<Rightarrow> pyfloat" where
  "fmul (Fin a) (Fin b) = Fin (a * b)"
| "fmul _ _ = NaN"

text \<open>Every division of the modelled code is guarded by a test that the divisor is
  non-zero, so \<^verbatim>\<open>ZeroDivisionError\<close> is never raised there.\<close>

fun fdiv :: "pyfloat \<Rightarrow> pyfloat \<Rightarrow> pyfloat" where
  "fdiv (Fin a) (Fin b) = Fin (a / b)"
| "fdiv _ _ = NaN"

fun fabs :: "pyfloat \<Rightarrow> pyfloat" where
  "fabs (Fin a) = Fin \<bar>a\<bar>"
| "fabs NaN = NaN"

fun flt :: "pyfloat \<Rightarrow> pyfloat \<Rightarrow> bool" where
  "flt (Fin a) (Fin b) = (a < b)"
| "flt _ _ = False"

fun fle :: "pyfloat \<Rightarrow> pyfloat \<Rightarrow> bool" where
  "fle (Fin a) (Fin b) = (a \<le> b)"
| "fle _ _ = False"

definition fgt :: "pyfloat \<Rightarrow> pyfloat \<Rightarrow> bool" where
  "fgt a b = flt b a"

definition fge :: "pyfloat \<Rightarrow> pyfloat \<Rightarrow> bool" where
  "fge a b = fle b a"

text \<open>\<^verbatim>\<open>bool(x)\<close> of a float: false exactly for zero.\<close>

fun ftruthy :: "pyfloat \<Rightarrow> bool" where
  "ftruthy (Fin a) = (a \<noteq> 0)"
| "ftruthy NaN = True"

text \<open>Truthiness of an \<^verbatim>\<open>Optional[float]\<close>: \<^verbatim>\<open>None\<close> and zero are false.\<close>

fun otruthy :: "pyfloat option \<Rightarrow> bool" where
  "otruthy None = False"
| "otruthy (Some x) = ftruthy x"

text \<open>The builtin \<^verbatim>\<open>max(a, b)\<close>: the second argument wins only when it is
  greater than the first.\<close>

definition py_max :: "pyfloat \<Rightarrow> pyfloat \<Rightarrow> pyfloat" where
  "py_max a b = (if fgt b a then b else a)"

definition py_min :: "pyfloat \<Rightarrow> pyfloat \<Rightarrow> pyfloat" where
  "py_min a b = (if flt b a then b else a)"

datatype py_error = IndexError

text \<open>\<^verbatim>\<open>xs[i]\<close>: a negative index counts from the end, an index out of range
  raises.\<close>

definition py_index :: "'a list \<Rightarrow> int \<Rightarrow> py_error + 'a" where
  "py_index xs i =
     (if 0 \<le> i \<and> i < int (length xs) then Inr (xs ! nat i)
      else if i < 0 \<and> - int (length xs) \<le> i then Inr (xs ! nat (int (length xs) + i))
      else Inl IndexError)"

section \<open>Robust statistics (app/utils/stats.py)\<close>

text \<open>\<^verbatim>\<open>_quantile(sorted_vals, q)\<close>.\<close>

definition quantile :: "rat list \<Rightarrow> rat \<Rightarrow> py_error + pyfloat" where
  "quantile sorted_vals q =
     (let n = length sorted_vals in
      if n = 0 then Inr NaN
      else if n = 1 then map_sum id Fin (py_index sorted_vals 0)
      else
        let pos = (of_nat n - 1) * q;
            lo = \<lfloor>pos\<rfloor>;
            hi = \<lceil>pos\<rceil>
        in if lo = hi then map_sum id Fin (py_index sorted_vals lo)
           else
             let w = pos - of_int lo in
             (case py_index sorted_vals lo of
                Inl e \<Rightarrow> Inl e
              | Inr a \<Rightarrow>
                  (case py_index sorted_vals hi of
                     Inl e \<Rightarrow> Inl e
                   | Inr b \<Rightarrow> Inr (Fin (a * (1 - w) + b * w)))))"

text \<open>The comprehension \<^verbatim>\<open>[v for v in vals if v is not None and not math.isnan(v)]\<close>;
  what it keeps is finite, so the kept values are returned as rationals.\<close>

fun non_nan :: "pyfloat option list \<Rightarrow> rat list" where
  "non_nan [] = []"
| "non_nan (None # vs) = non_nan vs"
| "non_nan (Some NaN # vs) = non_nan vs"
| "non_nan (Some (Fin r) # vs) = r # non_nan vs"

text \<open>\<^verbatim>\<open>median_iqr(vals)\<close>.\<close>

definition median_iqr :: "pyfloat option list \<Rightarrow> py_error + (pyfloat option \<times> pyfloat option)" where
  "median_iqr vals =
     (let vals' = non_nan vals in
      if length vals' < 20 then Inr (None, None)
      else
        let s = sort vals' in
        (case quantile s (1/2) of
           Inl e \<Rightarrow> Inl e
         | Inr med \<Rightarrow>
             (case quantile s (1/4) of
                Inl e \<Rightarrow> Inl e
              | Inr q25 \<Rightarrow>
                  (case quantile s (3/4) of
                     Inl e \<Rightarrow> Inl e
                   | Inr q75 \<Rightarrow> Inr (Some med, Some (fsub q75 q25))))))"

text \<open>The reference the specification describes: position \<open>(n - 1) * q\<close>, the element
  at that index when the position is integral, otherwise the interpolation between the
  floor and the ceiling index by the fractional part.\<close>

definition spec_quantile :: "rat list \<Rightarrow> rat \<Rightarrow> rat" where
  "spec_quantile xs q =
     (let pos = (of_nat (length xs) - 1) * q in
      if of_int \<lfloor>pos\<rfloor> = pos then xs ! nat \<lfloor>pos\<rfloor>
      else xs ! nat \<lfloor>pos\<rfloor> + (xs ! nat \<lceil>pos\<rceil> - xs ! nat \<lfloor>pos\<rfloor>) * frac pos)"

text \<open>The specification's \<open>medianIqr\<close>: drop the undefined and the not-a-number entries,
  give no result below 20 values, otherwise the median and the inter-quartile range of the
  values in ascending order.\<close>

fun defined_number :: "pyfloat option \<Rightarrow> bool" where
  "defined_number (Some (Fin r)) = True"
| "defined_number _ = False"

fun number_of :: "pyfloat option \<Rightarrow> rat" where
  "number_of (Some (Fin r)) = r"
| "number_of _ = 0"

definition spec_medianIqr :: "pyfloat option list \<Rightarrow> (rat \<times> rat) option" where
  "spec_medianIqr vals =
     (let xs = map number_of (filter defined_number vals) in
      if length xs < 20 then None
      else Some (spec_quantile (sort xs) (1/2),
                 spec_quantile (sort xs) (3/4) - spec_quantile (sort xs) (1/4)))"

section \<open>Shared state (app/state.py, app/config.py)\<close>

text \<open>A \<^verbatim>\<open>collections.deque\<close> created with \<^verbatim>\<open>maxlen\<close>: \<^verbatim>\<open>append\<close> adds on the
  right and, when the length then exceeds \<^verbatim>\<open>maxlen\<close>, drops one element on the left.\<close>

record 'a deque =
  maxlen :: nat
  items :: "'a list"

definition deque_new :: "nat \<Rightarrow> 'a deque" where
  "deque_new n = \<lparr>maxlen = n, items = []\<rparr>"

definition deque_append :: "'a deque \<Rightarrow> 'a \<Rightarrow> 'a deque" where
  "deque_append dq x =
     (let ys = items dq @ [x] in
      dq\<lparr>items := (if length ys > maxlen dq then tl ys else ys)\<rparr>)"

record BookTop =
  best_ask :: "pyfloat option"
  best_bid :: "pyfloat option"

record MarketStats =
  daily_quote_volume :: "pyfloat option"
  mark_price :: "pyfloat option"

record VarQuote =
  buy_1500 :: "pyfloat option"
  quote_ts_ms :: int

record ConfirmInfo =
  notional :: pyfloat
  var_buy :: "pyfloat option"
  lighter_vwap_ask :: "pyfloat option"
  spread_bps_exec :: "pyfloat option"
  spread_usd_exec :: "pyfloat option"
  ts_ms :: int

record Computed =
  spread_usd :: "pyfloat option"
  spread_bps :: "pyfloat option"
  baseline_median_bps :: "pyfloat option"
  baseline_iqr_bps :: "pyfloat option"
  deviation_bps :: "pyfloat option"
  anomaly :: bool
  anomaly_started_s :: "int option"
  last_confirm_s :: "int option"
  confirm :: "ConfirmInfo option"

record Market =
  market_id :: int
  symbol :: string
  base :: string
  book :: BookTop
  stats :: MarketStats
  var :: VarQuote
  computed :: Computed
  spread_bps_hist :: "(int \<times> pyfloat) deque"

text \<open>The defaults of the dataclasses: a market as it is when first created.\<close>

definition Computed_default :: Computed where
  "Computed_default =
     \<lparr>spread_usd = None, spread_bps = None, baseline_median_bps = None,
      baseline_iqr_bps = None, deviation_bps = None, anomaly = False,
      anomaly_started_s = None, last_confirm_s = None, confirm = None\<rparr>"

definition Market_new :: "int \<Rightarrow> string \<Rightarrow> string \<Rightarrow> Market" where
  "Market_new mid sy b =
     \<lparr>market_id = mid, symbol = sy, base = b,
      book = \<lparr>best_ask = None, best_bid = None\<rparr>,
      stats = \<lparr>daily_quote_volume = None, mark_price = None\<rparr>,
      var = \<lparr>buy_1500 = None, quote_ts_ms = 0\<rparr>,
      computed = Computed_default,
      spread_bps_hist = deque_new 7200\<rparr>"

text \<open>The settings the engine reads; the floats among them are taken finite.\<close>

record Settings =
  CONFIRM_NOTIONAL_USD :: rat
  VAR_CONFIRM_COOLDOWN_SEC :: rat
  BASELINE_WINDOW_SEC :: int
  PERSIST_SEC :: int
  MIN_DELTA_BPS :: rat

definition default_settings :: Settings where
  "default_settings =
     \<lparr>CONFIRM_NOTIONAL_USD = 3000, VAR_CONFIRM_COOLDOWN_SEC = 30,
      BASELINE_WINDOW_SEC = 1800, PERSIST_SEC = 6, MIN_DELTA_BPS = 8\<rparr>"

section \<open>The spread engine (app/engine/spread_engine.py)\<close>

text \<open>\<^verbatim>\<open>_calc_bps(spread_usd, ref_price)\<close>.\<close>

definition calc_bps :: "pyfloat \<Rightarrow> pyfloat \<Rightarrow> pyfloat option" where
  "calc_bps spread_usd' ref_price =
     (if \<not> ftruthy ref_price \<or> fle ref_price (Fin 0) then None
      else Some (fmul (fdiv spread_usd' ref_price) (Fin 10000)))"

text \<open>The loop of \<^verbatim>\<open>_trim_hist\<close>: pop from the left while the oldest entry is more than
  \<open>window_sec\<close> seconds before \<open>now\<close>. \<open>now\<close> is the clock as \<^verbatim>\<open>_trim_hist\<close> itself reads
  it, after the engine loop read its own.\<close>

fun trim_items :: "int \<Rightarrow> int \<Rightarrow> (int \<times> 'a) list \<Rightarrow> (int \<times> 'a) list" where
  "trim_items now window_sec [] = []"
| "trim_items now window_sec (h # t) =
     (if now - fst h > window_sec then trim_items now window_sec t else h # t)"

definition trim_hist :: "int \<Rightarrow> (int \<times> 'a) deque \<Rightarrow> int \<Rightarrow> (int \<times> 'a) deque" where
  "trim_hist now hist window_sec = hist\<lparr>items := trim_items now window_sec (items hist)\<rparr>"

text \<open>Lines 43 to 46: the deviation from the median against the threshold
  \<^verbatim>\<open>max(MIN_DELTA_BPS, 2.0 * iqr)\<close>.\<close>

definition deviation :: "pyfloat \<Rightarrow> pyfloat \<Rightarrow> pyfloat" where
  "deviation bps med = fsub bps med"

definition deviation_cond :: "Settings \<Rightarrow> pyfloat \<Rightarrow> pyfloat \<Rightarrow> bool" where
  "deviation_cond settings dev iqr =
     fge (fabs dev) (py_max (Fin (MIN_DELTA_BPS settings)) (fmul (Fin 2) iqr))"

text \<open>Lines 48 to 55: the debounce of the anomaly flag.\<close>

definition debounce :: "Settings \<Rightarrow> int \<Rightarrow> bool \<Rightarrow> Computed \<Rightarrow> Computed" where
  "debounce settings now_s cond c =
     (if cond then
        let started = (case anomaly_started_s c of None \<Rightarrow> now_s | Some s \<Rightarrow> s);
            c1 = c\<lparr>anomaly_started_s := Some started\<rparr>
        in if now_s - started \<ge> PERSIST_SEC settings then c1\<lparr>anomaly := True\<rparr> else c1
      else c\<lparr>anomaly := False, anomaly_started_s := None\<rparr>)"

text \<open>The body of the loop over the markets in \<^verbatim>\<open>spread_engine_loop\<close>, for one market:
  \<open>now_s\<close> is the clock read at the top of the tick, \<open>now_trim\<close> the clock read inside
  \<^verbatim>\<open>_trim_hist\<close>. An exception of \<^verbatim>\<open>median_iqr\<close> would leave the loop; none is
  ever raised there, as \<open>engine_market_returns\<close> below shows.\<close>

definition engine_market :: "Settings \<Rightarrow> int \<Rightarrow> int \<Rightarrow> Market \<Rightarrow> py_error + Market" where
  "engine_market settings now_s now_trim m =
     (case (best_ask (book m), buy_1500 (var m)) of
        (Some ask, Some var_buy') \<Rightarrow>
          if ftruthy ask \<and> ftruthy var_buy' then
            let su = fsub var_buy' ask;
                sb = calc_bps su ask;
                m1 = m\<lparr>computed := (computed m)\<lparr>spread_usd := Some su, spread_bps := sb\<rparr>\<rparr>
            in (case sb of
                  None \<Rightarrow> Inr m1
                | Some bps \<Rightarrow>
                    let hist = trim_hist now_trim (deque_append (spread_bps_hist m1) (now_s, bps))
                                 (BASELINE_WINDOW_SEC settings);
                        m2 = m1\<lparr>spread_bps_hist := hist\<rparr>;
                        vals = map (\<lambda>(_, v). Some v) (items hist)
                    in (case median_iqr vals of
                          Inl e \<Rightarrow> Inl e
                        | Inr (med, iqr) \<Rightarrow>
                            let m3 = m2\<lparr>computed := (computed m2)\<lparr>baseline_median_bps := med,
                                                                   baseline_iqr_bps := iqr\<rparr>\<rparr>
                            in (case (med, iqr) of
                                  (Some med', Some iqr') \<Rightarrow>
                                    let dev = deviation bps med';
                                        c = (computed m3)\<lparr>deviation_bps := Some dev\<rparr>;
                                        cond = deviation_cond settings dev iqr'
                                    in Inr (m3\<lparr>computed := debounce settings now_s cond c\<rparr>)
                                | _ \<Rightarrow> Inr m3)))
          else Inr m
      | _ \<Rightarrow> Inr m)"

text \<open>What one tick does, seen from outside: the spread in basis points it computes
  (\<open>None\<close> when an input is missing or zero, or the ask is not positive), the history it
  then holds, and the deviation condition when the tick gets as far as evaluating it.\<close>

definition live_bps :: "Market \<Rightarrow> pyfloat option" where
  "live_bps m =
     (case (best_ask (book m), buy_1500 (var m)) of
        (Some ask, Some var_buy') \<Rightarrow>
          if ftruthy ask \<and> ftruthy var_buy' then calc_bps (fsub var_buy' ask) ask else None
      | _ \<Rightarrow> None)"

definition next_hist :: "Settings \<Rightarrow> int \<Rightarrow> int \<Rightarrow> Market \<Rightarrow> pyfloat \<Rightarrow> (int \<times> pyfloat) deque" where
  "next_hist settings now_s now_trim m bps =
     trim_hist now_trim (deque_append (spread_bps_hist m) (now_s, bps))
       (BASELINE_WINDOW_SEC settings)"

definition hist_vals :: "(int \<times> pyfloat) deque \<Rightarrow> pyfloat option list" where
  "hist_vals h = map (\<lambda>(_, v). Some v) (items h)"

definition evaluated_cond :: "Settings \<Rightarrow> int \<Rightarrow> int \<Rightarrow> Market \<Rightarrow> bool option" where
  "evaluated_cond settings now_s now_trim m =
     (case live_bps m of
        None \<Rightarrow> None
      | Some bps \<Rightarrow>
          (case median_iqr (hist_vals (next_hist settings now_s now_trim m bps)) of
             Inr (Some med, Some iqr) \<Rightarrow> Some (deviation_cond settings (deviation bps med) iqr)
           | _ \<Rightarrow> None))"

text \<open>A run of the engine on one market. Between two ticks the feed and the quote poller
  overwrite \<^verbatim>\<open>book.best_ask\<close> and \<^verbatim>\<open>var.buy_1500\<close>; a tick is the pair of clock
  readings and the two values the engine then finds. The trace holds, per tick, the time,
  the condition if it was evaluated, and the market after the tick; an exception ends the
  loop and with it the trace.\<close>

type_synonym tick = "int \<times> int \<times> pyfloat option \<times> pyfloat option"

definition feed :: "pyfloat option \<Rightarrow> pyfloat option \<Rightarrow> Market \<Rightarrow> Market" where
  "feed ask vb m = m\<lparr>book := (book m)\<lparr>best_ask := ask\<rparr>, var := (var m)\<lparr>buy_1500 := vb\<rparr>\<rparr>"

text \<open>A tick finds an input missing or zero.\<close>

fun idle_tick :: "tick \<Rightarrow> bool" where
  "idle_tick (now_s, now_trim, ask, vb) = (\<not> (otruthy ask \<and> otruthy vb))"

type_synonym trace_entry = "int \<times> bool option \<times> Market"



fun entry_market :: "trace_entry \<Rightarrow> Market" where
  "entry_market (now_s, c, m) = m"

fun engine_trace :: "Settings \<Rightarrow> tick list \<Rightarrow> Market \<Rightarrow> trace_entry list" where
  "engine_trace settings [] m = []"
| "engine_trace settings ((now_s, now_trim, ask, vb) # ticks) m =
     (case engine_market settings now_s now_trim (feed ask vb m) of
        Inl e \<Rightarrow> []
      | Inr m' \<Rightarrow>
          (now_s, evaluated_cond settings now_s now_trim (feed ask vb m), m')
            # engine_trace settings ticks m')"






section \<open>The confirmation executor (app/engine/spread_engine.py)\<close>

text \<open>What awaiting one of the two quote callbacks gives: an exception, or a returned
  price that may be \<^verbatim>\<open>None\<close>.\<close>

datatype 'a outcome = Raises | Returns 'a

datatype callback = var_get_quote_cb | lighter_vwap_cb

text \<open>The test of line 64: \<^verbatim>\<open>last_confirm_s\<close> is truthy (set and not zero) and less than
  the cooldown ago.\<close>

definition cooling_down :: "Settings \<Rightarrow> int \<Rightarrow> Computed \<Rightarrow> bool" where
  "cooling_down settings now_s c =
     (case last_confirm_s c of
        None \<Rightarrow> False
      | Some l \<Rightarrow> l \<noteq> 0 \<and> of_int (now_s - l) < VAR_CONFIRM_COOLDOWN_SEC settings)"

text \<open>The body of the loop over the markets in \<^verbatim>\<open>confirm_executor_loop\<close>, for one
  market. \<open>now_s\<close> is the clock read at the top of the tick and \<open>now_ms\<close> the clock read for
  \<^verbatim>\<open>ts_ms\<close>; \<open>q1\<close> and \<open>q2\<close> are what the two callbacks give when awaited. The result is
  the list of callbacks awaited and the market afterwards. While a callback is awaited the
  other loops run; they write neither \<^verbatim>\<open>confirm\<close> nor \<^verbatim>\<open>last_confirm_s\<close>.\<close>

definition confirm_market ::
  "Settings \<Rightarrow> int \<Rightarrow> int \<Rightarrow> pyfloat option outcome \<Rightarrow> pyfloat option outcome \<Rightarrow> Market
     \<Rightarrow> callback list \<times> Market" where
  "confirm_market settings now_s now_ms q1 q2 m =
     (if \<not> anomaly (computed m) then ([], m)
      else if cooling_down settings now_s (computed m) then ([], m)
      else
        (case q1 of
           Raises \<Rightarrow> ([var_get_quote_cb], m)
         | Returns var_buy' \<Rightarrow>
             (case q2 of
                Raises \<Rightarrow> ([var_get_quote_cb, lighter_vwap_cb], m)
              | Returns vwap \<Rightarrow>
                  (case (var_buy', vwap) of
                     (Some vb, Some vw) \<Rightarrow>
                       let su = fsub vb vw;
                           sb = calc_bps su vw
                       in ([var_get_quote_cb, lighter_vwap_cb],
                           m\<lparr>computed := (computed m)
                               \<lparr>confirm := Some \<lparr>notional = Fin (CONFIRM_NOTIONAL_USD settings),
                                                var_buy = Some vb,
                                                lighter_vwap_ask = Some vw,
                                                spread_bps_exec = sb,
                                                spread_usd_exec = Some su,
                                                ts_ms = now_ms\<rparr>,
                                last_confirm_s := Some now_s\<rparr>\<rparr>)
                   | _ \<Rightarrow> ([var_get_quote_cb, lighter_vwap_cb], m)))))"

text \<open>Both callbacks returned a price.\<close>

fun both_quoted :: "pyfloat option outcome \<Rightarrow> pyfloat option outcome \<Rightarrow> bool" where
  "both_quoted (Returns (Some vb)) (Returns (Some vw)) = True"
| "both_quoted _ _ = False"

text \<open>A run of the executor on one market. Between two ticks the engine may set or clear
  the anomaly flag; a tick is the two clock readings, the flag the executor then finds,
  and what the callbacks give. The trace holds, per tick, the time, whether a confirmation
  completed, and the market after the tick.\<close>

type_synonym confirm_tick =
  "int \<times> int \<times> bool \<times> pyfloat option outcome \<times> pyfloat option outcome"

definition set_anomaly :: "bool \<Rightarrow> Market \<Rightarrow> Market" where
  "set_anomaly a m = m\<lparr>computed := (computed m)\<lparr>anomaly := a\<rparr>\<rparr>"

definition completes :: "Settings \<Rightarrow> int \<Rightarrow> pyfloat option outcome \<Rightarrow> pyfloat option outcome
     \<Rightarrow> Market \<Rightarrow> bool" where
  "completes settings now_s q1 q2 m =
     (anomaly (computed m) \<and> \<not> cooling_down settings now_s (computed m) \<and> both_quoted q1 q2)"

type_synonym confirm_entry = "int \<times> bool \<times> Market"

fun centry_now :: "confirm_entry \<Rightarrow> int" where
  "centry_now (now_s, d, m) = now_s"

fun centry_done :: "confirm_entry \<Rightarrow> bool" where
  "centry_done (now_s, d, m) = d"

fun centry_market :: "confirm_entry \<Rightarrow> Market" where
  "centry_market (now_s, d, m) = m"

fun confirm_trace :: "Settings \<Rightarrow> confirm_tick list \<Rightarrow> Market \<Rightarrow> confirm_entry list" where
  "confirm_trace settings [] m = []"
| "confirm_trace settings ((now_s, now_ms, a, q1, q2) # ticks) m =
     (let m0 = set_anomaly a m;
          m' = snd (confirm_market settings now_s now_ms q1 q2 m0)
      in (now_s, completes settings now_s q1 q2 m0, m') # confirm_trace settings ticks m')"

text \<open>Each completed confirmation of a trace comes, when an earlier confirmation time
  \<open>l\<close> is on record and truthy, at least the cooldown after it.\<close>

fun spaced :: "rat \<Rightarrow> int option \<Rightarrow> confirm_entry list \<Rightarrow> bool" where
  "spaced cd l [] = True"
| "spaced cd l ((now_s, done, m) # es) =
     (if done
      then (case l of None \<Rightarrow> True | Some t \<Rightarrow> t = 0 \<or> cd \<le> of_int (now_s - t))
           \<and> spaced cd (Some now_s) es
      else spaced cd l es)"

section \<open>The feed (app/feeds/lighter_ws.py)\<close>

text \<open>How one pass of the outer loop of \<^verbatim>\<open>lighter_ws_loop\<close> ends: the connection attempt
  raises; the connection is made and an exception is raised later (while subscribing or
  receiving); the connection is made and the stop event ends the receive loop; or the task
  is cancelled.\<close>

datatype attempt = ConnectFails | ConnectedThenFails | ConnectedThenStopped | Cancelled

text \<open>The outer loop with the current \<^verbatim>\<open>backoff\<close>, as the list of the delays it sleeps.
  A successful connect sets \<^verbatim>\<open>backoff = 1.0\<close>; the handler of an exception sleeps
  \<^verbatim>\<open>backoff\<close> and then sets \<^verbatim>\<open>backoff = min(backoff * 1.6, 15.0)\<close>; the stop event and
  a cancellation end the loop. The delays are exact rationals here.\<close>

fun ws_loop :: "rat \<Rightarrow> attempt list \<Rightarrow> rat list" where
  "ws_loop backoff [] = []"
| "ws_loop backoff (ConnectFails # rest) =
     backoff # ws_loop (min (backoff * (16/10)) 15) rest"
| "ws_loop backoff (ConnectedThenFails # rest) =
     1 # ws_loop (min (1 * (16/10)) 15) rest"
| "ws_loop backoff (ConnectedThenStopped # rest) = []"
| "ws_loop backoff (Cancelled # rest) = []"

text \<open>\<^verbatim>\<open>lighter_ws_loop\<close> starts with \<^verbatim>\<open>backoff = 1.0\<close>.\<close>

definition lighter_ws_loop :: "attempt list \<Rightarrow> rat list" where
  "lighter_ws_loop attempts = ws_loop 1 attempts"

text \<open>The pass ends in the exception handler, so the loop goes on.\<close>

fun retried :: "attempt \<Rightarrow> bool" where
  "retried ConnectFails = True"
| "retried ConnectedThenFails = True"
| "retried _ = False"

text \<open>A Python string is a sequence of Unicode code points; a literal of the source is
  written through \<open>text_of\<close>.\<close>

type_synonym pytext = "nat list"

definition text_of :: "string \<Rightarrow> pytext" where
  "text_of s = map of_char s"

text \<open>A decoded JSON value, as \<^verbatim>\<open>json.loads\<close> gives it.\<close>

datatype jval =
    JNull
  | JBool bool
  | JNum pyfloat
  | JStr pytext
  | JArr "jval list"
  | JObj "(string \<times> jval) list"

text \<open>\<^verbatim>\<open>bool(x)\<close>.\<close>

fun jtruthy :: "jval \<Rightarrow> bool" where
  "jtruthy JNull = False"
| "jtruthy (JBool b) = b"
| "jtruthy (JNum x) = ftruthy x"
| "jtruthy (JStr s) = (s \<noteq> [])"
| "jtruthy (JArr xs) = (xs \<noteq> [])"
| "jtruthy (JObj kvs) = (kvs \<noteq> [])"

text \<open>\<^verbatim>\<open>a or b\<close>, and \<^verbatim>\<open>d.get(k)\<close> with a missing key giving \<^verbatim>\<open>None\<close>.\<close>

definition jor :: "jval \<Rightarrow> jval \<Rightarrow> jval" where
  "jor a b = (if jtruthy a then a else b)"

definition jget :: "(string \<rightharpoonup> jval) \<Rightarrow> string \<Rightarrow> jval" where
  "jget d k = (case d k of None \<Rightarrow> JNull | Some v \<Rightarrow> v)"

text \<open>\<^verbatim>\<open>_to_float(x)\<close>: \<^verbatim>\<open>None\<close> for \<^verbatim>\<open>None\<close> and whenever \<^verbatim>\<open>float(x)\<close> raises.
  \<open>float_of_str\<close> stands for the builtin \<^verbatim>\<open>float\<close> on a string (\<open>None\<close> when it raises);
  it is a parameter of the model.\<close>

fun to_float :: "(pytext \<Rightarrow> pyfloat option) \<Rightarrow> jval \<Rightarrow> pyfloat option" where
  "to_float float_of_str JNull = None"
| "to_float float_of_str (JBool b) = Some (Fin (if b then 1 else 0))"
| "to_float float_of_str (JNum x) = Some x"
| "to_float float_of_str (JStr s) = float_of_str s"
| "to_float float_of_str (JArr xs) = None"
| "to_float float_of_str (JObj kvs) = None"

definition bid_keys :: "string list" where
  "bid_keys = [''best_bid'', ''bid'', ''bid_price'', ''bestBid'', ''bestBidPrice'']"

definition ask_keys :: "string list" where
  "ask_keys = [''best_ask'', ''ask'', ''ask_price'', ''bestAsk'', ''bestAskPrice'']"

text \<open>The loop \<^verbatim>\<open>for k in keys: if k in d and d[k] is not None: ... break\<close>: the value
  under the first key that is present and not \<^verbatim>\<open>None\<close>.\<close>

fun first_present :: "(string \<rightharpoonup> jval) \<Rightarrow> string list \<Rightarrow> jval option" where
  "first_present d [] = None"
| "first_present d (k # ks) =
     (case d k of
        None \<Rightarrow> first_present d ks
      | Some v \<Rightarrow> if v \<noteq> JNull then Some v else first_present d ks)"

text \<open>\<^verbatim>\<open>_pick_best_bid_ask(d)\<close>.\<close>

definition pick_best_bid_ask ::
  "(pytext \<Rightarrow> pyfloat option) \<Rightarrow> (string \<rightharpoonup> jval) \<Rightarrow> pyfloat option \<times> pyfloat option" where
  "pick_best_bid_ask float_of_str d =
     (let bid = (case first_present d bid_keys of
                   None \<Rightarrow> None
                 | Some v \<Rightarrow> to_float float_of_str v);
          ask = (case first_present d ask_keys of
                   None \<Rightarrow> None
                 | Some v \<Rightarrow> to_float float_of_str v)
      in if bid = None \<or> ask = None then
           let mp = to_float float_of_str (jor (jget d ''mark_price'') (jget d ''markPrice''))
           in (if bid = None then mp else bid, if ask = None then mp else ask)
         else (bid, ask))"

text \<open>What the explicit fields give for one side: the first present value, converted.\<close>

definition explicit_price ::
  "(pytext \<Rightarrow> pyfloat option) \<Rightarrow> (string \<rightharpoonup> jval) \<Rightarrow> string list \<Rightarrow> pyfloat option" where
  "explicit_price float_of_str d keys =
     (case first_present d keys of None \<Rightarrow> None | Some v \<Rightarrow> to_float float_of_str v)"

definition mark_fallback :: "(pytext \<Rightarrow> pyfloat option) \<Rightarrow> (string \<rightharpoonup> jval) \<Rightarrow> pyfloat option" where
  "mark_fallback float_of_str d =
     to_float float_of_str (jor (jget d ''mark_price'') (jget d ''markPrice''))"

section \<open>The backend (app/main.py)\<close>

text \<open>\<^verbatim>\<open>str.strip()\<close> removes, at both ends, the code points for which \<^verbatim>\<open>str.isspace\<close>
  holds: 9 to 13, 28 to 32, U+0085, U+00A0, U+1680, U+2000 to U+200A, U+2028, U+2029,
  U+202F, U+205F and U+3000.\<close>

definition py_space :: "nat \<Rightarrow> bool" where
  "py_space c =
     ((9 \<le> c \<and> c \<le> 13) \<or> (28 \<le> c \<and> c \<le> 32) \<or> c = 133 \<or> c = 160 \<or> c = 5760
      \<or> (8192 \<le> c \<and> c \<le> 8202) \<or> c = 8232 \<or> c = 8233 \<or> c = 8239 \<or> c = 8287
      \<or> c = 12288)"

definition strip :: "pytext \<Rightarrow> pytext" where
  "strip s = rev (dropWhile py_space (rev (dropWhile py_space s)))"

text \<open>\<^verbatim>\<open>str.upper()\<close> and \<^verbatim>\<open>str.lower()\<close> of one code point below 256. Upper case: the
  letters a to z and U+00E0 to U+00FE (but for the division sign U+00F7) move down by
  32, the micro sign U+00B5 becomes U+039C, the sharp s U+00DF becomes the two letters
  SS, and U+00FF becomes U+0178. Lower case: the letters A to Z and U+00C0 to U+00DE
  (but for the multiplication sign U+00D7) move up by 32. Every other code point below
  256 stays.\<close>

definition upper_char :: "nat \<Rightarrow> pytext" where
  "upper_char c =
     (if 97 \<le> c \<and> c \<le> 122 then [c - 32]
      else if c = 181 then [924]
      else if c = 223 then [83, 83]
      else if 224 \<le> c \<and> c \<le> 254 \<and> c \<noteq> 247 then [c - 32]
      else if c = 255 then [376]
      else [c])"

definition lower_char :: "nat \<Rightarrow> nat" where
  "lower_char c =
     (if 65 \<le> c \<and> c \<le> 90 then c + 32
      else if 192 \<le> c \<and> c \<le> 222 \<and> c \<noteq> 215 then c + 32
      else c)"

text \<open>The builtins the model does not define: \<^verbatim>\<open>float\<close> on a string (\<open>None\<close> when it
  raises), \<^verbatim>\<open>str\<close> on a value that is not a string, and \<^verbatim>\<open>str.upper()\<close> and
  \<^verbatim>\<open>str.lower()\<close> on a string that holds a code point from 256 on. They are
  parameters.\<close>

record Builtins =
  float_of_str :: "pytext \<Rightarrow> pyfloat option"
  str_of :: "jval \<Rightarrow> pytext"
  upper_beyond :: "pytext \<Rightarrow> pytext"
  lower_beyond :: "pytext \<Rightarrow> pytext"

text \<open>\<^verbatim>\<open>s.upper()\<close> and \<^verbatim>\<open>s.lower()\<close>: code point by code point on a string whose code
  points are all below 256.\<close>

definition upper :: "Builtins \<Rightarrow> pytext \<Rightarrow> pytext" where
  "upper B s = (if list_all (\<lambda>c. c < 256) s then concat (map upper_char s) else upper_beyond B s)"

definition lower :: "Builtins \<Rightarrow> pytext \<Rightarrow> pytext" where
  "lower B s = (if list_all (\<lambda>c. c < 256) s then map lower_char s else lower_beyond B s)"



text \<open>The builtin \<^verbatim>\<open>round\<close> to an integer: to the nearest, a tie to the even one.\<close>

definition py_round :: "rat \<Rightarrow> int" where
  "py_round x =
     (let f = \<lfloor>x\<rfloor>; r = x - of_int f
      in if r < 1/2 then f else if 1/2 < r then f + 1 else if even f then f else f + 1)"

datatype app_error = ValueError


text \<open>A stored quote, the dictionary
  \<^verbatim>\<open>{"ts_ms", "base", "notional_int", "bid", "ask", "mid", "qty_used"}\<close>.\<close>

record var_row =
  row_ts_ms :: int
  row_base :: pytext
  row_notional_int :: int
  row_bid :: pyfloat
  row_ask :: pyfloat
  row_mid :: "pyfloat option"
  row_qty_used :: "pyfloat option"

text \<open>A chart sample \<^verbatim>\<open>(t_ms, spread_usd, spread_bps)\<close>.\<close>

type_synonym point = "int \<times> pyfloat \<times> pyfloat"

text \<open>The module's state: the feed's \<^verbatim>\<open>market_stats\<close> (a dictionary, in insertion
  order), \<^verbatim>\<open>VAR_BATCH\<close> (a dictionary, in insertion order), \<^verbatim>\<open>ACTIVE_BASES\<close> and
  \<^verbatim>\<open>SPREAD_SERIES\<close>; and the constant \<^verbatim>\<open>MAX_POINTS\<close>.\<close>

record app_state =
  market_stats :: "(int \<times> (string \<rightharpoonup> jval)) list"
  VAR_BATCH :: "((pytext \<times> int) \<times> var_row) list"
  ACTIVE_BASES :: "pytext set"
  SPREAD_SERIES :: "(pytext \<times> pytext) \<rightharpoonup> point deque"

text \<open>\<^verbatim>\<open>MAX_POINTS = int(MAX_WINDOW_S / max(SAMPLE_EVERY_S, 0.25)) + 50\<close>.\<close>

definition MAX_POINTS :: "rat \<Rightarrow> nat" where
  "MAX_POINTS sample_every_s = nat \<lfloor>7200 / max sample_every_s (1/4)\<rfloor> + 50"






text \<open>The default spread mode.\<close>

definition default_mode :: pytext where
  "default_mode = text_of ''lighter_bid_minus_var_sell''"


text \<open>\<^verbatim>\<open>_push_point(base, mode, spread_usd, spread_bps)\<close>; \<open>now_ms\<close> is the clock it
  reads.\<close>

definition push_point ::
  "Builtins \<Rightarrow> nat \<Rightarrow> int \<Rightarrow> pytext \<Rightarrow> pytext \<Rightarrow> pyfloat option \<Rightarrow> pyfloat option \<Rightarrow> app_state
     \<Rightarrow> app_state" where
  "push_point B max_points now_ms base' mode su sb s =
     (case (su, sb) of
        (Some usd, Some bps) \<Rightarrow>
          let b = strip (upper B base') in
          if b = [] then s
          else
            let mode' = (if strip mode = [] then default_mode else strip mode);
                key = (b, mode');
                dq = (case SPREAD_SERIES s key of
                        None \<Rightarrow> deque_new max_points
                      | Some dq0 \<Rightarrow> dq0)
            in s\<lparr>SPREAD_SERIES := (SPREAD_SERIES s)(key \<mapsto> deque_append dq (now_ms, usd, bps))\<rparr>
      | _ \<Rightarrow> s)"

text \<open>The key \<^verbatim>\<open>_push_point\<close> files a sample under.\<close>

definition push_key :: "Builtins \<Rightarrow> pytext \<Rightarrow> pytext \<Rightarrow> pytext \<times> pytext" where
  "push_key B b mode = (strip (upper B b), if strip mode = [] then default_mode else strip mode)"










text \<open>\<^verbatim>\<open>int(x)\<close> of a float: towards zero; it raises on a not-a-number.\<close>

fun py_int :: "pyfloat \<Rightarrow> app_error + int" where
  "py_int NaN = Inl ValueError"
| "py_int (Fin x) = Inr (if 0 \<le> x then \<lfloor>x\<rfloor> else \<lceil>x\<rceil>)"

text \<open>\<^verbatim>\<open>_parse_window_s(window)\<close>.\<close>

definition parse_seconds :: "Builtins \<Rightarrow> pytext \<Rightarrow> rat \<Rightarrow> app_error + int" where
  "parse_seconds B digits unit =
     (case float_of_str B digits of
        None \<Rightarrow> Inl ValueError
      | Some f \<Rightarrow> py_int (fmul f (Fin unit)))"

definition parse_window_s :: "Builtins \<Rightarrow> pytext \<Rightarrow> app_error + int" where
  "parse_window_s B window =
     (let w = lower B (strip (if window = [] then text_of ''5m'' else window)) in
      if w \<noteq> [] \<and> last w = of_char CHR ''m'' then parse_seconds B (butlast w) 60
      else if w \<noteq> [] \<and> last w = of_char CHR ''h'' then parse_seconds B (butlast w) 3600
      else (case float_of_str B w of
              None \<Rightarrow> Inl ValueError
            | Some f \<Rightarrow> py_int f))"

text \<open>The loop of \<^verbatim>\<open>chart_series\<close> over a buffer: the samples not before the cutoff,
  in the buffer's order, each as its time and the value of the metric.\<close>

fun series_points :: "int \<Rightarrow> pytext \<Rightarrow> point list \<Rightarrow> (int \<times> pyfloat) list" where
  "series_points cutoff_ms metric [] = []"
| "series_points cutoff_ms metric ((t_ms, usd, bps) # rest) =
     (if t_ms < cutoff_ms then series_points cutoff_ms metric rest
      else (t_ms, if metric = text_of ''bps'' then bps else usd) # series_points cutoff_ms metric rest)"

text \<open>\<^verbatim>\<open>chart_series(base, window, metric, mode)\<close>, reduced to the \<^verbatim>\<open>points\<close> of its
  result; \<^verbatim>\<open>count\<close> is their number and \<^verbatim>\<open>latest\<close> the last of them. \<open>now_ms\<close> is the
  clock it reads for the cutoff.\<close>

definition chart_series ::
  "Builtins \<Rightarrow> int \<Rightarrow> pytext \<Rightarrow> pytext \<Rightarrow> pytext \<Rightarrow> pytext \<Rightarrow> app_state
     \<Rightarrow> app_error + (int \<times> pyfloat) list" where
  "chart_series B now_ms base' window metric mode s =
     (let base_u = strip (upper B base');
          metric' = strip (lower B (if metric = [] then text_of ''bps'' else metric));
          mode' = strip (if mode = [] then default_mode else mode)
      in case parse_window_s B window of
           Inl e \<Rightarrow> Inl e
         | Inr win_s \<Rightarrow>
             let cutoff_ms = now_ms - win_s * 1000
             in (case SPREAD_SERIES s (base_u, mode') of
                   None \<Rightarrow> Inr []
                 | Some dq \<Rightarrow> Inr (series_points cutoff_ms metric' (items dq))))"

section \<open>Example states\<close>




text \<open>A market whose only sample is from second 1000 and whose book has no ask.\<close>

definition stale_market :: Market where
  "stale_market =
     (Market_new 1 ''ETH'' ''ETH'')
       \<lparr>spread_bps_hist := \<lparr>maxlen = 7200, items = [(1000, Fin 5)]\<rparr>\<rparr>"

text \<open>A newly created market that has just received an ask of 100 and a buy quote of 101.\<close>

definition quoted_market :: Market where
  "quoted_market = feed (Some (Fin 100)) (Some (Fin 101)) (Market_new 1 ''ETH'' ''ETH'')"

text \<open>A market holding one sample from second 1000 and one from second 4000, with an ask
  of 100 and a buy quote of 101.\<close>

definition aged_market :: Market where
  "aged_market =
     feed (Some (Fin 100)) (Some (Fin 101))
       ((Market_new 1 ''ETH'' ''ETH'')
          \<lparr>spread_bps_hist := \<lparr>maxlen = 7200, items = [(1000, Fin 5), (4000, Fin 6)]\<rparr>\<rparr>)"

text \<open>A market flagged anomalous since second 1000 whose book has lost its ask.\<close>

definition active_market :: Market where
  "active_market =
     (Market_new 1 ''ETH'' ''ETH'')
       \<lparr>computed := Computed_default\<lparr>anomaly := True, anomaly_started_s := Some 1000\<rparr>\<rparr>"


text \<open>Three ticks of the executor on the anomalous market, at seconds 5000, 5010 and 5030:
  the first and the third get both prices, the second falls inside the cooldown.\<close>

definition confirm_ticks :: "confirm_tick list" where
  "confirm_ticks =
     [(5000, 5000123, True, Returns (Some (Fin 101)), Returns (Some (Fin 100))),
      (5010, 5010456, True, Returns (Some (Fin 102)), Returns (Some (Fin 100))),
      (5030, 5030789, True, Returns (Some (Fin 103)), Returns (Some (Fin 100)))]"

text \<open>What an entry of the executor's trace shows: the time, whether a confirmation
  completed, the last confirmation time and the quoted buy price on record.\<close>

definition confirm_summary :: "confirm_entry \<Rightarrow> int \<times> bool \<times> int option \<times> pyfloat option" where
  "confirm_summary e =
     (centry_now e, centry_done e, last_confirm_s (computed (centry_market e)),
      (case confirm (computed (centry_market e)) of None \<Rightarrow> None | Some i \<Rightarrow> var_buy i))"

text \<open>A string conversion for payloads that hold no string: it is never consulted
  there.\<close>

definition rejects_all :: "pytext \<Rightarrow> pyfloat option" where
  "rejects_all s = None"

text \<open>A payload that gives the index price only, and one that gives the mark price
  only.\<close>

definition index_only :: "string \<rightharpoonup> jval" where
  "index_only = [''symbol'' \<mapsto> JStr (text_of ''ETH''), ''index_price'' \<mapsto> JNum (Fin 100)]"

definition mark_only :: "string \<rightharpoonup> jval" where
  "mark_only = [''symbol'' \<mapsto> JStr (text_of ''ETH''), ''mark_price'' \<mapsto> JNum (Fin 100)]"

text \<open>Builtins for the examples: the only text that converts is \<open>1\<close>, and no value that
  is not a string prints as anything.\<close>

definition demo_builtins :: Builtins where
  "demo_builtins =
     \<lparr>float_of_str = (\<lambda>s. if s = text_of ''1'' then Some (Fin 1) else None), str_of = (\<lambda>v. []),
      upper_beyond = (\<lambda>s. s), lower_beyond = (\<lambda>s. s)\<rparr>"

text \<open>A state whose only series, of capacity 2, is full.\<close>

definition chart_state :: app_state where
  "chart_state =
     \<lparr>market_stats = [], VAR_BATCH = [], ACTIVE_BASES = {},
      SPREAD_SERIES = [(text_of ''ETH'', default_mode) \<mapsto>
         \<lparr>maxlen = 2, items = [(1000, Fin 1, Fin 10), (2000, Fin 2, Fin 20)]\<rparr>]\<rparr>"






section \<open>Properties of the statistics\<close>

lemma py_index_in_range:
  "i < length xs \<Longrightarrow> py_index xs (int i) = Inr (xs ! i)"
  by (simp add: py_index_def)

lemma non_nan_filter:
  "non_nan vals = map number_of (filter defined_number vals)"
  by (induction vals rule: non_nan.induct) simp_all

lemma floor_ceiling_range:
  fixes q :: rat
  assumes "0 \<le> q" "q \<le> 1" "0 < n"
  shows "0 \<le> \<lfloor>(of_nat n - 1) * q\<rfloor>" "\<lceil>(of_nat n - 1) * q\<rceil> < int n"
    "\<lfloor>(of_nat n - 1) * q\<rfloor> < int n" "0 \<le> \<lceil>(of_nat n - 1) * q\<rceil>"
proof -
  let ?p = "(of_nat n - 1) * q"
  have n1: "(0::rat) \<le> of_nat n - 1" using assms(3) by simp
  have p0: "0 \<le> ?p" using n1 assms(1) by simp
  have "?p \<le> (of_nat n - 1) * 1" using n1 assms(2) by (intro mult_left_mono)
  then have p1: "?p \<le> of_int (int n - 1)" by simp
  show "0 \<le> \<lfloor>?p\<rfloor>" using p0 by simp
  have "\<lceil>?p\<rceil> \<le> int n - 1" using p1 by (simp only: ceiling_le_iff)
  then show c: "\<lceil>?p\<rceil> < int n" by simp
  show "\<lfloor>?p\<rfloor> < int n" using c floor_le_ceiling[of ?p] by linarith
  show "0 \<le> \<lceil>?p\<rceil>" using p0 by (simp add: le_ceiling_iff)
qed

lemma floor_eq_ceiling_iff:
  fixes p :: rat
  shows "(\<lfloor>p\<rfloor> = \<lceil>p\<rceil>) = (of_int \<lfloor>p\<rfloor> = p)"
proof
  assume e: "\<lfloor>p\<rfloor> = \<lceil>p\<rceil>"
  have a: "of_int \<lfloor>p\<rfloor> \<le> p" by (rule of_int_floor_le)
  have "p \<le> of_int \<lceil>p\<rceil>" by (rule le_of_int_ceiling)
  then have b: "p \<le> of_int \<lfloor>p\<rfloor>" by (simp only: e)
  show "of_int \<lfloor>p\<rfloor> = p" using a b by (rule antisym)
next
  assume a: "of_int \<lfloor>p\<rfloor> = p"
  have "\<lceil>(of_int \<lfloor>p\<rfloor> :: rat)\<rceil> = \<lfloor>p\<rfloor>" by (rule ceiling_of_int)
  then show "\<lfloor>p\<rfloor> = \<lceil>p\<rceil>" by (simp only: a)
qed

lemma quantile_spec:
  assumes "xs \<noteq> []" "0 \<le> q" "q \<le> 1"
  shows "quantile xs q = Inr (Fin (spec_quantile xs q))"
proof -
  let ?n = "length xs"
  let ?p = "(of_nat ?n - 1) * q"
  have n0: "0 < ?n" using assms(1) by simp
  note r = floor_ceiling_range[OF assms(2,3) n0]
  have ilo: "py_index xs \<lfloor>?p\<rfloor> = Inr (xs ! nat \<lfloor>?p\<rfloor>)"
    using r(1,3) by (simp add: py_index_def)
  have ihi: "py_index xs \<lceil>?p\<rceil> = Inr (xs ! nat \<lceil>?p\<rceil>)"
    using r(2,4) by (simp add: py_index_def)
  note eqi = floor_eq_ceiling_iff[of ?p]
  show ?thesis
  proof (cases "?n = 1")
    case True
    then have "?p = 0" by simp
    then show ?thesis using True
      by (simp add: quantile_def spec_quantile_def py_index_def)
  next
    case False
    have alg: "a * (1 - w) + b * w = a + (b - a) * w" for a b w :: rat
      by (simp add: algebra_simps)
    show ?thesis
    proof (cases "\<lfloor>?p\<rfloor> = \<lceil>?p\<rceil>")
      case True
      then have "of_int \<lfloor>?p\<rfloor> = ?p" using eqi by simp
      then show ?thesis using False n0 True ilo
        by (simp add: quantile_def spec_quantile_def Let_def)
    next
      case F2: False
      then have "of_int \<lfloor>?p\<rfloor> \<noteq> ?p" using eqi by simp
      then show ?thesis using False n0 F2 ilo ihi
        by (simp add: quantile_def spec_quantile_def Let_def frac_def alg)
    qed
  qed
qed


lemma quantile_single: "quantile [v] q = Inr (Fin v)"
  by (simp add: quantile_def py_index_def)

text \<open>
  Claim C7. For a non-empty list and \<open>q\<close> between 0 and 1, \<open>quantile\<close> works at the
  position \<open>(n - 1) * q\<close>: both the floor and the ceiling index are inside the list, the
  result is the element at the position when it is integral and otherwise the
  interpolation of the floor and ceiling elements weighted by the fractional part. A
  one-element list gives its element for every \<open>q\<close>; on \<open>[1, 2, 3, 4]\<close> the result is
  \<open>5/2\<close> at \<open>q = 1/2\<close> and \<open>7/4\<close> at \<open>q = 1/4\<close>, and on \<open>[5]\<close> it is 5.
\<close>

theorem quantile_interpolates:
  assumes "xs \<noteq> []" and "0 \<le> q" and "q \<le> 1"
  shows "(let pos = (of_nat (length xs) - 1) * q in
            nat \<lfloor>pos\<rfloor> < length xs \<and> nat \<lceil>pos\<rceil> < length xs \<and>
            quantile xs q =
              (if of_int \<lfloor>pos\<rfloor> = pos then Inr (Fin (xs ! nat \<lfloor>pos\<rfloor>))
               else Inr (Fin (xs ! nat \<lfloor>pos\<rfloor> * (1 - frac pos) + xs ! nat \<lceil>pos\<rceil> * frac pos))))
         \<and> quantile [v] q' = Inr (Fin v)
         \<and> quantile [1, 2, 3, 4] (1/2) = Inr (Fin (5/2))
         \<and> quantile [1, 2, 3, 4] (1/4) = Inr (Fin (7/4))
         \<and> quantile [5] q' = Inr (Fin 5)"
proof -
  let ?p = "(of_nat (length xs) - 1) * q"
  have n0: "0 < length xs" using assms(1) by simp
  note r = floor_ceiling_range[OF assms(2,3) n0]
  have lo: "nat \<lfloor>?p\<rfloor> < length xs" using r(1,3) by linarith
  have hi: "nat \<lceil>?p\<rceil> < length xs" using r(2,4) by linarith
  have alg: "a + (b - a) * w = a * (1 - w) + b * w" for a b w :: rat
    by (simp add: algebra_simps)
  have main: "quantile xs q =
      (if of_int \<lfloor>?p\<rfloor> = ?p then Inr (Fin (xs ! nat \<lfloor>?p\<rfloor>))
       else Inr (Fin (xs ! nat \<lfloor>?p\<rfloor> * (1 - frac ?p) + xs ! nat \<lceil>?p\<rceil> * frac ?p)))"
    unfolding quantile_spec[OF assms]
    by (simp add: spec_quantile_def Let_def alg)
  have f2: "\<lfloor>3 / 2 :: rat\<rfloor> = 1" by (simp add: floor_eq_iff)
  have c2: "\<lceil>3 / 2 :: rat\<rceil> = 2" by (simp add: ceiling_eq_iff)
  have f4: "\<lfloor>3 / 4 :: rat\<rfloor> = 0" by (simp add: floor_eq_iff)
  have c4: "\<lceil>3 / 4 :: rat\<rceil> = 1" by (simp add: ceiling_eq_iff)
  have e1: "quantile [1, 2, 3, 4] (1/2) = Inr (Fin (5/2))"
    by (simp add: quantile_spec spec_quantile_def Let_def frac_def f2 c2 del: of_int_floor_cancel)
  have e2: "quantile [1, 2, 3, 4] (1/4) = Inr (Fin (7/4))"
    by (simp add: quantile_spec spec_quantile_def Let_def frac_def f4 c4 del: of_int_floor_cancel)
  show ?thesis using lo hi main e1 e2 by (simp add: Let_def quantile_single)
qed

theorem quantile_interpolates_witness:
  "quantile [10, 20, 40] (1/4) = Inr (Fin 15) \<and> quantile [10, 20, 40] (1/2) = Inr (Fin 20)"
proof -
  have a: "[10, 20, 40] \<noteq> ([]::rat list)" by simp
  have f1: "\<lfloor>1 / 2 :: rat\<rfloor> = 0" by (simp add: floor_eq_iff)
  have c1: "\<lceil>1 / 2 :: rat\<rceil> = 1" by (simp add: ceiling_eq_iff)
  have "quantile [10, 20, 40] (1/4) = Inr (Fin 15)"
    using quantile_interpolates[OF a, of "1/4" 0 0]
    by (simp add: Let_def frac_def f1 c1 del: of_int_floor_cancel)
  moreover have "quantile [10, 20, 40] (1/2) = Inr (Fin 20)"
    using quantile_interpolates[OF a, of "1/2" 0 0]
    by (simp add: Let_def)
  ultimately show ?thesis by simp
qed

lemma quantile_sorted_long:
  assumes "20 \<le> length xs" and "0 \<le> q" and "q \<le> 1"
  shows "quantile (sort xs) q = Inr (Fin (spec_quantile (sort xs) q))"
proof -
  have "sort xs \<noteq> []" using assms(1) by (metis length_sort list.size(3) not_numeral_le_zero)
  then show ?thesis using assms(2,3) by (rule quantile_spec)
qed

lemma median_iqr_unfold:
  "median_iqr vals =
     (if length (non_nan vals) < 20 then Inr (None, None)
      else Inr (Some (Fin (spec_quantile (sort (non_nan vals)) (1/2))),
                Some (Fin (spec_quantile (sort (non_nan vals)) (3/4)
                            - spec_quantile (sort (non_nan vals)) (1/4)))))"
proof (cases "length (non_nan vals) < 20")
  case True
  then show ?thesis by (simp add: median_iqr_def)
next
  case False
  let ?xs = "non_nan vals"
  from False have l: "20 \<le> length ?xs" by simp
  have q2: "quantile (sort ?xs) (1/2) = Inr (Fin (spec_quantile (sort ?xs) (1/2)))"
    by (rule quantile_sorted_long[OF l]) simp_all
  have q1: "quantile (sort ?xs) (1/4) = Inr (Fin (spec_quantile (sort ?xs) (1/4)))"
    by (rule quantile_sorted_long[OF l]) simp_all
  have q3: "quantile (sort ?xs) (3/4) = Inr (Fin (spec_quantile (sort ?xs) (3/4)))"
    by (rule quantile_sorted_long[OF l]) simp_all
  show ?thesis using False by (simp add: median_iqr_def Let_def q1 q2 q3)
qed

text \<open>
  Claim C6. \<open>median_iqr\<close> agrees with the specification's \<open>medianIqr\<close> on every input:
  after the undefined and not-a-number entries are dropped, fewer than 20 remaining
  values give \<open>(None, None)\<close> whatever the values are, and otherwise the result is the
  0.5-quantile and the difference of the 0.75- and 0.25-quantiles of the remaining values
  sorted ascending. No input makes it raise.
\<close>

theorem median_iqr_matches_spec:
  "median_iqr vals =
     (case spec_medianIqr vals of
        None \<Rightarrow> Inr (None, None)
      | Some (m, i) \<Rightarrow> Inr (Some (Fin m), Some (Fin i)))
   \<and> (spec_medianIqr vals = None) = (length (filter defined_number vals) < 20)"
proof -
  have f: "map number_of (filter defined_number vals) = non_nan vals"
    by (simp add: non_nan_filter)
  have l: "length (filter defined_number vals) = length (non_nan vals)"
    by (simp add: non_nan_filter)
  show ?thesis
    by (simp add: median_iqr_unfold spec_medianIqr_def f l Let_def)
qed

section \<open>Properties of the spread engine\<close>

lemma median_iqr_result:
  "(median_iqr vals = Inr (None, None) \<and> length (non_nan vals) < 20)
   \<or> (\<exists>a b. median_iqr vals = Inr (Some (Fin a), Some (Fin b)) \<and> 20 \<le> length (non_nan vals))"
  by (simp add: median_iqr_unfold)

lemma engine_market_idle:
  assumes "\<not> (otruthy (best_ask (book m)) \<and> otruthy (buy_1500 (var m)))"
  shows "engine_market settings now_s now_trim m = Inr m"
  using assms
  by (cases "best_ask (book m)"; cases "buy_1500 (var m)") (auto simp: engine_market_def)

lemma live_bps_idle:
  "\<not> (otruthy (best_ask (book m)) \<and> otruthy (buy_1500 (var m))) \<Longrightarrow> live_bps m = None"
  by (cases "best_ask (book m)"; cases "buy_1500 (var m)") (auto simp: live_bps_def)

lemma engine_market_no_bps:
  assumes "best_ask (book m) = Some ask" "buy_1500 (var m) = Some vb"
    and "ftruthy ask" "ftruthy vb" and "calc_bps (fsub vb ask) ask = None"
  shows "engine_market settings now_s now_trim m =
           Inr (m\<lparr>computed := (computed m)\<lparr>spread_usd := Some (fsub vb ask), spread_bps := None\<rparr>\<rparr>)"
  using assms by (simp add: engine_market_def)

lemma engine_market_no_baseline:
  assumes "best_ask (book m) = Some ask" "buy_1500 (var m) = Some vb"
    and "ftruthy ask" "ftruthy vb" and "calc_bps (fsub vb ask) ask = Some bps"
    and "length (non_nan (hist_vals (next_hist settings now_s now_trim m bps))) < 20"
  shows "engine_market settings now_s now_trim m =
           Inr (m\<lparr>computed := (computed m)\<lparr>spread_usd := Some (fsub vb ask), spread_bps := Some bps,
                                          baseline_median_bps := None, baseline_iqr_bps := None\<rparr>,
                   spread_bps_hist := next_hist settings now_s now_trim m bps\<rparr>)"
  using assms
  by (simp add: engine_market_def Let_def median_iqr_unfold next_hist_def hist_vals_def)

lemma engine_market_baseline:
  assumes "best_ask (book m) = Some ask" "buy_1500 (var m) = Some vb"
    and "ftruthy ask" "ftruthy vb" and "calc_bps (fsub vb ask) ask = Some bps"
    and "median_iqr (hist_vals (next_hist settings now_s now_trim m bps)) = Inr (Some med, Some iqr)"
  shows "engine_market settings now_s now_trim m =
           Inr (m\<lparr>computed :=
                     debounce settings now_s (deviation_cond settings (deviation bps med) iqr)
                       ((computed m)\<lparr>spread_usd := Some (fsub vb ask), spread_bps := Some bps,
                                     baseline_median_bps := Some med, baseline_iqr_bps := Some iqr,
                                     deviation_bps := Some (deviation bps med)\<rparr>),
                   spread_bps_hist := next_hist settings now_s now_trim m bps\<rparr>)"
  using assms
  by (simp add: engine_market_def Let_def next_hist_def hist_vals_def)

lemma debounce_flags:
  "anomaly (debounce st now c x) =
     (c \<and> (anomaly x \<or> PERSIST_SEC st \<le> now - (case anomaly_started_s x of None \<Rightarrow> now | Some s \<Rightarrow> s)))"
  "anomaly_started_s (debounce st now c x) =
     (if c then Some (case anomaly_started_s x of None \<Rightarrow> now | Some s \<Rightarrow> s) else None)"
  by (simp_all add: debounce_def Let_def)

lemma engine_step:
  "\<exists>m'. engine_market st now nt m = Inr m'
     \<and> (evaluated_cond st now nt m = None \<longrightarrow>
           anomaly (computed m') = anomaly (computed m)
         \<and> anomaly_started_s (computed m') = anomaly_started_s (computed m)
         \<and> deviation_bps (computed m') = deviation_bps (computed m))
     \<and> (\<forall>c. evaluated_cond st now nt m = Some c \<longrightarrow>
           anomaly (computed m') = anomaly (debounce st now c (computed m))
         \<and> anomaly_started_s (computed m') = anomaly_started_s (debounce st now c (computed m)))
     \<and> spread_bps_hist m' =
           (case live_bps m of None \<Rightarrow> spread_bps_hist m | Some bps \<Rightarrow> next_hist st now nt m bps)
     \<and> last_confirm_s (computed m') = last_confirm_s (computed m)
     \<and> confirm (computed m') = confirm (computed m)"
proof (cases "otruthy (best_ask (book m)) \<and> otruthy (buy_1500 (var m))")
  case False
  have "engine_market st now nt m = Inr m" using False by (rule engine_market_idle)
  moreover have "live_bps m = None" using False by (rule live_bps_idle)
  ultimately show ?thesis by (simp add: evaluated_cond_def)
next
  case True
  then obtain ask vb where a: "best_ask (book m) = Some ask" "buy_1500 (var m) = Some vb"
    and t: "ftruthy ask" "ftruthy vb"
    by (cases "best_ask (book m)"; cases "buy_1500 (var m)") auto
  have lb: "live_bps m = calc_bps (fsub vb ask) ask" using a t by (simp add: live_bps_def)
  show ?thesis
  proof (cases "calc_bps (fsub vb ask) ask")
    case None
    show ?thesis
      using engine_market_no_bps[OF a t None, of st now nt] lb None
      by (simp add: evaluated_cond_def)
  next
    case (Some bps)
    let ?h = "next_hist st now nt m bps"
    from median_iqr_result[of "hist_vals ?h"] show ?thesis
    proof (elim disjE conjE exE)
      assume mi: "median_iqr (hist_vals ?h) = Inr (None, None)"
        and l: "length (non_nan (hist_vals ?h)) < 20"
      show ?thesis
        using engine_market_no_baseline[OF a t Some l] lb Some mi
        by (simp add: evaluated_cond_def)
    next
      fix x y
      assume mi: "median_iqr (hist_vals ?h) = Inr (Some (Fin x), Some (Fin y))"
      show ?thesis
        using engine_market_baseline[OF a t Some mi] lb Some mi
        by (simp add: evaluated_cond_def debounce_flags debounce_def Let_def)
    qed
  qed
qed












lemma trim_items_dropWhile:
  "trim_items now w xs = dropWhile (\<lambda>e. now - fst e > w) xs"
  by (induction xs) simp_all

lemma dropWhile_sorted_within:
  assumes "sorted (map fst xs)"
  shows "\<forall>e\<in>set (dropWhile (\<lambda>e. now - fst e > w) xs). now - fst e \<le> (w::int)"
  using assms
proof (induction xs)
  case Nil
  show ?case by simp
next
  case (Cons x xs)
  show ?case
  proof (cases "now - fst x > w")
    case True
    then show ?thesis using Cons by simp
  next
    case False
    have "\<forall>e\<in>set xs. fst x \<le> fst e" using Cons.prems by auto
    then have "\<forall>e\<in>set xs. now - fst e \<le> w" using False by fastforce
    then show ?thesis using False by simp
  qed
qed

lemma deque_append_items:
  "items (deque_append dq x) =
     (if length (items dq) < maxlen dq then items dq @ [x] else tl (items dq @ [x]))"
  "maxlen (deque_append dq x) = maxlen dq"
  by (auto simp: deque_append_def Let_def)

lemma sorted_tl: "sorted xs \<Longrightarrow> sorted (tl xs)"
  by (cases xs) simp_all

lemma deque_append_sorted:
  assumes "sorted (map fst (items dq))" and "\<forall>e\<in>set (items dq). fst e \<le> (t::int)"
  shows "sorted (map fst (items (deque_append dq (t, v))))"
    and "\<forall>e\<in>set (items (deque_append dq (t, v))). fst e \<le> t"
proof -
  have s: "sorted (map fst (items dq @ [(t, v)]))"
    using assms by (auto simp: sorted_append)
  have b: "\<forall>e\<in>set (items dq @ [(t, v)]). fst e \<le> t" using assms(2) by auto
  show "sorted (map fst (items (deque_append dq (t, v))))"
    using s sorted_tl[OF s] by (simp add: deque_append_items map_tl del: map_append)
  show "\<forall>e\<in>set (items (deque_append dq (t, v))). fst e \<le> t"
  proof (cases "length (items dq) < maxlen dq")
    case True
    then show ?thesis using b by (simp add: deque_append_items)
  next
    case False
    have "set (tl (items dq @ [(t, v)])) \<subseteq> set (items dq @ [(t, v)])"
      by (rule list.set_sel(2)[THEN subsetI]) simp
    then show ?thesis using False b by (auto simp only: deque_append_items if_False)
  qed
qed

lemma sorted_dropWhile_fst: "sorted (map fst xs) \<Longrightarrow> sorted (map fst (dropWhile P xs))"
  by (induction xs) auto

lemma next_hist_items:
  "items (next_hist st now nt m bps) =
     dropWhile (\<lambda>e. nt - fst e > BASELINE_WINDOW_SEC st)
       (items (deque_append (spread_bps_hist m) (now, bps)))"
  "maxlen (next_hist st now nt m bps) = maxlen (spread_bps_hist m)"
  by (simp_all add: next_hist_def trim_hist_def trim_items_dropWhile deque_append_items(2))

lemma computed_feed: "computed (feed ask vb m) = computed m"
  "spread_bps_hist (feed ask vb m) = spread_bps_hist m"
  by (simp_all add: feed_def)

lemma idle_feed:
  "\<not> (otruthy ask \<and> otruthy vb) \<Longrightarrow>
     engine_market st now nt (feed ask vb m) = Inr (feed ask vb m)"
  by (rule engine_market_idle) (simp add: feed_def)

lemma idle_trace:
  assumes "\<forall>t\<in>set ticks. idle_tick t"
  shows "\<forall>e\<in>set (engine_trace st ticks m).
           computed (entry_market e) = computed m
         \<and> spread_bps_hist (entry_market e) = spread_bps_hist m"
  using assms
proof (induction ticks arbitrary: m)
  case Nil
  show ?case by simp
next
  case (Cons t ticks)
  obtain now nt ask vb where t: "t = (now, nt, ask, vb)" by (cases t) auto
  from Cons.prems t have idle: "\<not> (otruthy ask \<and> otruthy vb)" by simp
  from Cons.prems have rest: "\<forall>t\<in>set ticks. idle_tick t" by simp
  note ih = Cons.IH[OF rest, of "feed ask vb m"]
  show ?case
    using ih by (simp add: t idle_feed[OF idle] computed_feed)
qed




text \<open>
  Claim C2 (as amended). Every tick returns. A tick that computes no spread in basis points
  (an input missing or zero, or the ask not positive) leaves the history as it is: it is
  neither appended to nor trimmed. A tick that computes one appends the sample to the
  bounded deque (which keeps its capacity and, only when already full, drops its oldest
  entry by count) and then evicts from the front, oldest first, exactly the leading
  entries that are strictly older than the baseline window at the time the trim reads the
  clock. When the history was in time order and not ahead of the tick, every sample left
  is within the window, and the history is again in time order.
\<close>

theorem history_trim:
  "\<exists>m'. engine_market st now nt m = Inr m'
     \<and> (live_bps m = None \<longrightarrow> spread_bps_hist m' = spread_bps_hist m)
     \<and> (\<forall>bps. live_bps m = Some bps \<longrightarrow>
           maxlen (spread_bps_hist m') = maxlen (spread_bps_hist m)
         \<and> items (spread_bps_hist m') =
             dropWhile (\<lambda>e. nt - fst e > BASELINE_WINDOW_SEC st)
               (items (deque_append (spread_bps_hist m) (now, bps)))
         \<and> items (deque_append (spread_bps_hist m) (now, bps)) =
             (if length (items (spread_bps_hist m)) < maxlen (spread_bps_hist m)
              then items (spread_bps_hist m) @ [(now, bps)]
              else tl (items (spread_bps_hist m) @ [(now, bps)]))
         \<and> (sorted (map fst (items (spread_bps_hist m)))
              \<and> (\<forall>e\<in>set (items (spread_bps_hist m)). fst e \<le> now)
            \<longrightarrow> (\<forall>e\<in>set (items (spread_bps_hist m')). nt - fst e \<le> BASELINE_WINDOW_SEC st)
              \<and> sorted (map fst (items (spread_bps_hist m')))
              \<and> (\<forall>e\<in>set (items (spread_bps_hist m')). fst e \<le> now)))"
proof -
  from engine_step[of st now nt m] obtain m' where r: "engine_market st now nt m = Inr m'"
    and h: "spread_bps_hist m' =
           (case live_bps m of None \<Rightarrow> spread_bps_hist m | Some bps \<Rightarrow> next_hist st now nt m bps)"
    by blast
  have a: "live_bps m = None \<longrightarrow> spread_bps_hist m' = spread_bps_hist m"
    using h by simp
  have b: "maxlen (spread_bps_hist m') = maxlen (spread_bps_hist m)
         \<and> items (spread_bps_hist m') =
             dropWhile (\<lambda>e. nt - fst e > BASELINE_WINDOW_SEC st)
               (items (deque_append (spread_bps_hist m) (now, bps)))
         \<and> items (deque_append (spread_bps_hist m) (now, bps)) =
             (if length (items (spread_bps_hist m)) < maxlen (spread_bps_hist m)
              then items (spread_bps_hist m) @ [(now, bps)]
              else tl (items (spread_bps_hist m) @ [(now, bps)]))
         \<and> (sorted (map fst (items (spread_bps_hist m)))
              \<and> (\<forall>e\<in>set (items (spread_bps_hist m)). fst e \<le> now)
            \<longrightarrow> (\<forall>e\<in>set (items (spread_bps_hist m')). nt - fst e \<le> BASELINE_WINDOW_SEC st)
              \<and> sorted (map fst (items (spread_bps_hist m')))
              \<and> (\<forall>e\<in>set (items (spread_bps_hist m')). fst e \<le> now))"
    if l: "live_bps m = Some bps" for bps
  proof -
    have hm: "spread_bps_hist m' = next_hist st now nt m bps" using h l by simp
    let ?ap = "deque_append (spread_bps_hist m) (now, bps)"
    have i: "items (spread_bps_hist m') =
        dropWhile (\<lambda>e. nt - fst e > BASELINE_WINDOW_SEC st) (items ?ap)"
      unfolding hm by (rule next_hist_items(1))
    have ml: "maxlen (spread_bps_hist m') = maxlen (spread_bps_hist m)"
      unfolding hm by (rule next_hist_items(2))
    have s: "(\<forall>e\<in>set (items (spread_bps_hist m')). nt - fst e \<le> BASELINE_WINDOW_SEC st)
              \<and> sorted (map fst (items (spread_bps_hist m')))
              \<and> (\<forall>e\<in>set (items (spread_bps_hist m')). fst e \<le> now)"
      if so: "sorted (map fst (items (spread_bps_hist m)))"
        and le: "\<forall>e\<in>set (items (spread_bps_hist m)). fst e \<le> now"
    proof -
      note ds = deque_append_sorted[OF so le, of bps]
      have 1: "\<forall>e\<in>set (items (spread_bps_hist m')). nt - fst e \<le> BASELINE_WINDOW_SEC st"
        unfolding i using ds(1) by (rule dropWhile_sorted_within)
      have 2: "sorted (map fst (items (spread_bps_hist m')))"
        unfolding i using ds(1) by (rule sorted_dropWhile_fst)
      have 3: "\<forall>e\<in>set (items (spread_bps_hist m')). fst e \<le> now"
        unfolding i using ds(2) by (meson set_dropWhileD)
      show ?thesis using 1 2 3 by blast
    qed
    note d = deque_append_items(1)[of "spread_bps_hist m" "(now, bps)"]
    from s have s': "sorted (map fst (items (spread_bps_hist m)))
              \<and> (\<forall>e\<in>set (items (spread_bps_hist m)). fst e \<le> now)
            \<longrightarrow> (\<forall>e\<in>set (items (spread_bps_hist m')). nt - fst e \<le> BASELINE_WINDOW_SEC st)
              \<and> sorted (map fst (items (spread_bps_hist m')))
              \<and> (\<forall>e\<in>set (items (spread_bps_hist m')). fst e \<le> now)"
      by (intro impI) (elim conjE)
    show ?thesis by (intro conjI ml i d s')
  qed
  then have ball: "\<forall>bps. live_bps m = Some bps \<longrightarrow>
           maxlen (spread_bps_hist m') = maxlen (spread_bps_hist m)
         \<and> items (spread_bps_hist m') =
             dropWhile (\<lambda>e. nt - fst e > BASELINE_WINDOW_SEC st)
               (items (deque_append (spread_bps_hist m) (now, bps)))
         \<and> items (deque_append (spread_bps_hist m) (now, bps)) =
             (if length (items (spread_bps_hist m)) < maxlen (spread_bps_hist m)
              then items (spread_bps_hist m) @ [(now, bps)]
              else tl (items (spread_bps_hist m) @ [(now, bps)]))
         \<and> (sorted (map fst (items (spread_bps_hist m)))
              \<and> (\<forall>e\<in>set (items (spread_bps_hist m)). fst e \<le> now)
            \<longrightarrow> (\<forall>e\<in>set (items (spread_bps_hist m')). nt - fst e \<le> BASELINE_WINDOW_SEC st)
              \<and> sorted (map fst (items (spread_bps_hist m')))
              \<and> (\<forall>e\<in>set (items (spread_bps_hist m')). fst e \<le> now))"
    by (intro allI impI)
  show ?thesis
    by (rule exI[of _ m'], intro conjI) (fact r, fact a, fact ball)
qed

theorem history_trim_counterexample:
  "engine_market default_settings 5000 5000 stale_market = Inr stale_market
   \<and> items (spread_bps_hist stale_market) = [(1000, Fin 5)]
   \<and> \<not> (5000 - 1000 \<le> BASELINE_WINDOW_SEC default_settings)"
  by (simp add: engine_market_def stale_market_def Market_new_def default_settings_def)

lemma live_bps_aged: "live_bps aged_market = Some (Fin 100)"
  by (simp add: live_bps_def aged_market_def feed_def Market_new_def calc_bps_def)

theorem history_trim_witness:
  "\<exists>m'. engine_market default_settings 5000 5000 aged_market = Inr m'
      \<and> items (spread_bps_hist m') = [(4000, Fin 6), (5000, Fin 100)]"
proof -
  from history_trim[of default_settings 5000 5000 aged_market] obtain m' where
    r: "engine_market default_settings 5000 5000 aged_market = Inr m'"
    and i: "\<forall>bps. live_bps aged_market = Some bps \<longrightarrow>
         items (spread_bps_hist m') =
             dropWhile (\<lambda>e. 5000 - fst e > BASELINE_WINDOW_SEC default_settings)
               (items (deque_append (spread_bps_hist aged_market) (5000, bps)))"
    by blast
  from i live_bps_aged have "items (spread_bps_hist m') =
             dropWhile (\<lambda>e. 5000 - fst e > BASELINE_WINDOW_SEC default_settings)
               (items (deque_append (spread_bps_hist aged_market) (5000, Fin 100)))"
    by blast
  then have "items (spread_bps_hist m') = [(4000, Fin 6), (5000, Fin 100)]"
    by (simp add: deque_append_def aged_market_def feed_def Market_new_def default_settings_def)
  with r show ?thesis by blast
qed

text \<open>
  Claim C10 (as amended). Every tick returns. A tick that finds the best ask or the
  secondary buy quote missing or zero leaves the market exactly as it was, and a run of
  such ticks leaves all computed fields and the history as they were, so an asset that was
  anomalous stays anomalous for as long as its inputs are missing. A tick that does not
  get as far as evaluating the condition leaves the deviation, the anomaly flag and its
  start time unchanged. But a tick that computes the spread while the baseline is
  undefined (fewer than 20 usable samples after the append and the trim) does write:
  it stores the fresh spread in dollars and in basis points and sets the baseline median
  and inter-quartile range to undefined.
\<close>

theorem engine_frame:
  "\<exists>m'. engine_market st now nt m = Inr m'
     \<and> (\<not> (otruthy (best_ask (book m)) \<and> otruthy (buy_1500 (var m))) \<longrightarrow> m' = m)
     \<and> (evaluated_cond st now nt m = None \<longrightarrow>
           deviation_bps (computed m') = deviation_bps (computed m)
         \<and> anomaly (computed m') = anomaly (computed m)
         \<and> anomaly_started_s (computed m') = anomaly_started_s (computed m))
     \<and> (\<forall>bps. live_bps m = Some bps
            \<and> length (non_nan (hist_vals (next_hist st now nt m bps))) < 20 \<longrightarrow>
           evaluated_cond st now nt m = None
         \<and> spread_bps (computed m') = Some bps
         \<and> (\<forall>ask vb. best_ask (book m) = Some ask \<and> buy_1500 (var m) = Some vb \<longrightarrow>
                spread_usd (computed m') = Some (fsub vb ask))
         \<and> baseline_median_bps (computed m') = None
         \<and> baseline_iqr_bps (computed m') = None)
     \<and> ((\<forall>t\<in>set ticks. idle_tick t) \<longrightarrow>
          (\<forall>e\<in>set (engine_trace st ticks m).
             computed (entry_market e) = computed m
           \<and> spread_bps_hist (entry_market e) = spread_bps_hist m))"
proof -
  from engine_step[of st now nt m] obtain m' where r: "engine_market st now nt m = Inr m'"
    and n: "evaluated_cond st now nt m = None \<longrightarrow>
           anomaly (computed m') = anomaly (computed m)
         \<and> anomaly_started_s (computed m') = anomaly_started_s (computed m)
         \<and> deviation_bps (computed m') = deviation_bps (computed m)"
    by (elim exE conjE) (rule that, assumption+)
  have a: "\<not> (otruthy (best_ask (book m)) \<and> otruthy (buy_1500 (var m))) \<longrightarrow> m' = m"
    using r engine_market_idle[of m st now nt] by auto
  have b: "evaluated_cond st now nt m = None \<longrightarrow>
           deviation_bps (computed m') = deviation_bps (computed m)
         \<and> anomaly (computed m') = anomaly (computed m)
         \<and> anomaly_started_s (computed m') = anomaly_started_s (computed m)"
    using n by blast
  have c: "\<forall>bps. live_bps m = Some bps
            \<and> length (non_nan (hist_vals (next_hist st now nt m bps))) < 20 \<longrightarrow>
           evaluated_cond st now nt m = None
         \<and> spread_bps (computed m') = Some bps
         \<and> (\<forall>ask vb. best_ask (book m) = Some ask \<and> buy_1500 (var m) = Some vb \<longrightarrow>
                spread_usd (computed m') = Some (fsub vb ask))
         \<and> baseline_median_bps (computed m') = None
         \<and> baseline_iqr_bps (computed m') = None"
  proof (intro allI impI, elim conjE)
    fix bps
    assume l: "live_bps m = Some bps"
      and s: "length (non_nan (hist_vals (next_hist st now nt m bps))) < 20"
    from l obtain ask vb where av: "best_ask (book m) = Some ask" "buy_1500 (var m) = Some vb"
      "ftruthy ask" "ftruthy vb" "calc_bps (fsub vb ask) ask = Some bps"
      by (auto simp: live_bps_def split: option.splits if_splits)
    have m': "m' = m\<lparr>computed := (computed m)\<lparr>spread_usd := Some (fsub vb ask), spread_bps := Some bps,
                                          baseline_median_bps := None, baseline_iqr_bps := None\<rparr>,
                   spread_bps_hist := next_hist st now nt m bps\<rparr>"
      using engine_market_no_baseline[OF av s] r by simp
    have e: "evaluated_cond st now nt m = None"
      using l s by (simp add: evaluated_cond_def median_iqr_unfold)
    show "evaluated_cond st now nt m = None
         \<and> spread_bps (computed m') = Some bps
         \<and> (\<forall>ask vb. best_ask (book m) = Some ask \<and> buy_1500 (var m) = Some vb \<longrightarrow>
                spread_usd (computed m') = Some (fsub vb ask))
         \<and> baseline_median_bps (computed m') = None
         \<and> baseline_iqr_bps (computed m') = None"
      using e av(1,2) by (simp add: m')
  qed
  have d: "(\<forall>t\<in>set ticks. idle_tick t) \<longrightarrow>
          (\<forall>e\<in>set (engine_trace st ticks m).
             computed (entry_market e) = computed m
           \<and> spread_bps_hist (entry_market e) = spread_bps_hist m)"
    using idle_trace[of ticks st m] by blast
  show ?thesis
    by (rule exI[of _ m'], intro conjI) (fact r, fact a, fact b, fact c, fact d)
qed

theorem engine_frame_counterexample:
  "spread_usd (computed quoted_market) = None
   \<and> engine_market default_settings 1000 1000 quoted_market =
       Inr (quoted_market
              \<lparr>computed := Computed_default\<lparr>spread_usd := Some (Fin 1), spread_bps := Some (Fin 100)\<rparr>,
               spread_bps_hist := \<lparr>maxlen = 7200, items = [(1000, Fin 100)]\<rparr>\<rparr>)"
  by (simp add: engine_market_def quoted_market_def feed_def Market_new_def Computed_default_def
      default_settings_def calc_bps_def deque_append_def deque_new_def trim_hist_def
      median_iqr_def Let_def)

theorem engine_frame_witness:
  "\<exists>m'. engine_market default_settings 5000 5000 active_market = Inr m'
      \<and> anomaly (computed m') \<and> anomaly_started_s (computed m') = Some 1000"
proof -
  have idle: "\<not> (otruthy (best_ask (book active_market)) \<and> otruthy (buy_1500 (var active_market)))"
    by (simp add: active_market_def Market_new_def)
  from engine_frame[of default_settings 5000 5000 active_market "[]"] obtain m' where
    r: "engine_market default_settings 5000 5000 active_market = Inr m'"
    and a: "\<not> (otruthy (best_ask (book active_market)) \<and> otruthy (buy_1500 (var active_market)))
             \<longrightarrow> m' = active_market"
    by (elim exE conjE) (rule that, assumption+)
  from a idle have "m' = active_market" by blast
  then have "anomaly (computed m') \<and> anomaly_started_s (computed m') = Some 1000"
    by (simp add: active_market_def Computed_default_def)
  with r show ?thesis by blast
qed

section \<open>Properties of the confirmation executor\<close>

lemma confirm_market_calls:
  "fst (confirm_market st now_s now_ms q1 q2 m) \<noteq> [] \<longleftrightarrow>
     anomaly (computed m) \<and> \<not> cooling_down st now_s (computed m)"
  by (auto simp: confirm_market_def Let_def split: outcome.splits option.splits)

lemma confirm_market_skip:
  "\<not> completes st now_s q1 q2 m \<Longrightarrow> snd (confirm_market st now_s now_ms q1 q2 m) = m"
  by (cases q1; cases q2)
     (auto simp: confirm_market_def completes_def Let_def split: outcome.splits option.splits)

lemma confirm_market_done:
  assumes "completes st now_s q1 q2 m"
  shows "\<exists>vb vw. q1 = Returns (Some vb) \<and> q2 = Returns (Some vw) \<and>
     snd (confirm_market st now_s now_ms q1 q2 m) =
       m\<lparr>computed := (computed m)
           \<lparr>confirm := Some \<lparr>notional = Fin (CONFIRM_NOTIONAL_USD st),
                            var_buy = Some vb,
                            lighter_vwap_ask = Some vw,
                            spread_bps_exec = calc_bps (fsub vb vw) vw,
                            spread_usd_exec = Some (fsub vb vw),
                            ts_ms = now_ms\<rparr>,
            last_confirm_s := Some now_s\<rparr>\<rparr>"
proof -
  from assms obtain vb vw where q: "q1 = Returns (Some vb)" "q2 = Returns (Some vw)"
    unfolding completes_def by (auto elim: both_quoted.elims)
  from assms have g: "anomaly (computed m)" "\<not> cooling_down st now_s (computed m)"
    unfolding completes_def by simp_all
  show ?thesis using q g by (simp add: confirm_market_def Let_def)
qed

lemma last_confirm_after:
  "last_confirm_s (computed (snd (confirm_market st now_s now_ms q1 q2 m))) =
     (if completes st now_s q1 q2 m then Some now_s else last_confirm_s (computed m))"
proof (cases "completes st now_s q1 q2 m")
  case True
  from confirm_market_done[OF True, of now_ms] show ?thesis using True by auto
next
  case False
  then show ?thesis by (simp add: confirm_market_skip)
qed

lemma last_confirm_set_anomaly:
  "last_confirm_s (computed (set_anomaly a m)) = last_confirm_s (computed m)"
  by (simp add: set_anomaly_def)

lemma completes_gate:
  assumes "completes st now_s q1 q2 m"
  shows "case last_confirm_s (computed m) of None \<Rightarrow> True
         | Some t \<Rightarrow> t = 0 \<or> VAR_CONFIRM_COOLDOWN_SEC st \<le> of_int (now_s - t)"
  using assms by (auto simp: completes_def cooling_down_def split: option.splits)

lemma confirm_trace_spaced:
  "spaced (VAR_CONFIRM_COOLDOWN_SEC st) (last_confirm_s (computed m)) (confirm_trace st ticks m)"
proof (induction ticks arbitrary: m)
  case Nil
  show ?case by simp
next
  case (Cons t ticks)
  obtain now_s now_ms a q1 q2 where t: "t = (now_s, now_ms, a, q1, q2)" by (cases t) auto
  let ?m0 = "set_anomaly a m"
  let ?m' = "snd (confirm_market st now_s now_ms q1 q2 ?m0)"
  note ih = Cons.IH[of ?m']
  show ?case
  proof (cases "completes st now_s q1 q2 ?m0")
    case True
    have l: "last_confirm_s (computed ?m') = Some now_s"
      using True by (simp add: last_confirm_after)
    from completes_gate[OF True] show ?thesis
      using ih True l by (simp add: t Let_def last_confirm_set_anomaly)
  next
    case False
    have l: "last_confirm_s (computed ?m') = last_confirm_s (computed m)"
      using False by (simp add: last_confirm_after last_confirm_set_anomaly)
    show ?thesis using ih False l by (simp add: t Let_def)
  qed
qed

lemma spaced_skip:
  assumes "\<forall>x\<in>set mid. \<not> centry_done x"
  shows "spaced cd l (mid @ es) = spaced cd l es"
  using assms by (induction mid) auto

lemma spaced_next:
  assumes "spaced cd l (pre @ e0 # mid @ e # post)"
    and "centry_done e0" and "centry_done e" and "\<forall>x\<in>set mid. \<not> centry_done x"
    and "centry_now e0 \<noteq> 0"
  shows "cd \<le> of_int (centry_now e - centry_now e0)"
  using assms(1)
proof (induction pre arbitrary: l)
  case Nil
  obtain n0 d0 m0 where e0: "e0 = (n0, d0, m0)" by (cases e0) auto
  obtain n d m where e: "e = (n, d, m)" by (cases e) auto
  from Nil have "spaced cd (Some n0) (mid @ e # post)"
    using assms(2) by (simp add: e0)
  then have "spaced cd (Some n0) (e # post)"
    using spaced_skip[OF assms(4)] by simp
  then show ?case using assms(3,5) by (simp add: e e0)
next
  case (Cons x pre)
  obtain nx dx mx where x: "x = (nx, dx, mx)" by (cases x) auto
  from Cons.prems show ?case
    using Cons.IH by (cases dx) (auto simp: x)
qed

text \<open>
  Claim C3. With a recorded confirmation time that is not the zero timestamp (the clock
  never reads 0), the executor awaits the quote callbacks for a market exactly when its
  anomaly flag is set and the last confirmation is unset or at least the cooldown ago.
  When a callback raises or either returns no price, the market, and with it the
  confirmation record and the last confirmation time, is left as it was; the market
  changes only when a confirmation completes, and then the confirmation record is replaced
  by a fresh one built from the two prices alone and the last confirmation time is set to
  the tick's time. In any run, a completed confirmation comes at least the cooldown after
  the completed confirmation before it.
\<close>

theorem confirmation_gate:
  assumes "last_confirm_s (computed m) \<noteq> Some 0"
  shows "(fst (confirm_market st now_s now_ms q1 q2 m) \<noteq> [] \<longleftrightarrow>
            anomaly (computed m)
          \<and> (case last_confirm_s (computed m) of
                None \<Rightarrow> True
              | Some l \<Rightarrow> VAR_CONFIRM_COOLDOWN_SEC st \<le> of_int (now_s - l)))
    \<and> (\<not> both_quoted q1 q2 \<longrightarrow> snd (confirm_market st now_s now_ms q1 q2 m) = m)
    \<and> (snd (confirm_market st now_s now_ms q1 q2 m) \<noteq> m \<longrightarrow> completes st now_s q1 q2 m)
    \<and> (completes st now_s q1 q2 m \<longrightarrow>
         (\<exists>vb vw. q1 = Returns (Some vb) \<and> q2 = Returns (Some vw) \<and>
            snd (confirm_market st now_s now_ms q1 q2 m) =
              m\<lparr>computed := (computed m)
                  \<lparr>confirm := Some \<lparr>notional = Fin (CONFIRM_NOTIONAL_USD st),
                                   var_buy = Some vb,
                                   lighter_vwap_ask = Some vw,
                                   spread_bps_exec = calc_bps (fsub vb vw) vw,
                                   spread_usd_exec = Some (fsub vb vw),
                                   ts_ms = now_ms\<rparr>,
                   last_confirm_s := Some now_s\<rparr>\<rparr>))
    \<and> (\<forall>pre e0 mid e post.
          confirm_trace st ticks m = pre @ e0 # mid @ e # post
          \<and> centry_done e0 \<and> centry_done e \<and> (\<forall>x\<in>set mid. \<not> centry_done x)
          \<and> centry_now e0 \<noteq> 0
          \<longrightarrow> VAR_CONFIRM_COOLDOWN_SEC st \<le> of_int (centry_now e - centry_now e0))"
proof -
  have 1: "fst (confirm_market st now_s now_ms q1 q2 m) \<noteq> [] \<longleftrightarrow>
            anomaly (computed m)
          \<and> (case last_confirm_s (computed m) of
                None \<Rightarrow> True
              | Some l \<Rightarrow> VAR_CONFIRM_COOLDOWN_SEC st \<le> of_int (now_s - l))"
    unfolding confirm_market_calls using assms
    by (auto simp: cooling_down_def split: option.splits)
  have 2: "\<not> both_quoted q1 q2 \<longrightarrow> snd (confirm_market st now_s now_ms q1 q2 m) = m"
    using confirm_market_skip[of st now_s q1 q2 m now_ms] by (simp add: completes_def)
  have 3: "snd (confirm_market st now_s now_ms q1 q2 m) \<noteq> m \<longrightarrow> completes st now_s q1 q2 m"
    using confirm_market_skip[of st now_s q1 q2 m now_ms] by blast
  have 4: "completes st now_s q1 q2 m \<longrightarrow>
         (\<exists>vb vw. q1 = Returns (Some vb) \<and> q2 = Returns (Some vw) \<and>
            snd (confirm_market st now_s now_ms q1 q2 m) =
              m\<lparr>computed := (computed m)
                  \<lparr>confirm := Some \<lparr>notional = Fin (CONFIRM_NOTIONAL_USD st),
                                   var_buy = Some vb,
                                   lighter_vwap_ask = Some vw,
                                   spread_bps_exec = calc_bps (fsub vb vw) vw,
                                   spread_usd_exec = Some (fsub vb vw),
                                   ts_ms = now_ms\<rparr>,
                   last_confirm_s := Some now_s\<rparr>\<rparr>)"
    using confirm_market_done[of st now_s q1 q2 m now_ms] by blast
  have 5: "\<forall>pre e0 mid e post.
          confirm_trace st ticks m = pre @ e0 # mid @ e # post
          \<and> centry_done e0 \<and> centry_done e \<and> (\<forall>x\<in>set mid. \<not> centry_done x)
          \<and> centry_now e0 \<noteq> 0
          \<longrightarrow> VAR_CONFIRM_COOLDOWN_SEC st \<le> of_int (centry_now e - centry_now e0)"
  proof (intro allI impI, elim conjE)
    fix pre e0 mid e post
    assume tr: "confirm_trace st ticks m = pre @ e0 # mid @ e # post"
      and d: "centry_done e0" "centry_done e" "\<forall>x\<in>set mid. \<not> centry_done x"
        "centry_now e0 \<noteq> 0"
    have "spaced (VAR_CONFIRM_COOLDOWN_SEC st) (last_confirm_s (computed m))
            (pre @ e0 # mid @ e # post)"
      using confirm_trace_spaced[of st m ticks] by (simp only: tr)
    then show "VAR_CONFIRM_COOLDOWN_SEC st \<le> of_int (centry_now e - centry_now e0)"
      using d by (rule spaced_next)
  qed
  show ?thesis by (intro conjI) (fact 1, fact 2, fact 3, fact 4, fact 5)
qed

theorem confirmation_gate_witness:
  "fst (confirm_market default_settings 5000 5000123
          (Returns (Some (Fin 101))) (Returns (Some (Fin 100))) active_market)
     = [var_get_quote_cb, lighter_vwap_cb]
   \<and> map confirm_summary (confirm_trace default_settings confirm_ticks active_market)
     = [(5000, True, Some 5000, Some (Fin 101)),
        (5010, False, Some 5000, Some (Fin 101)),
        (5030, True, Some 5030, Some (Fin 103))]"
proof -
  have h: "last_confirm_s (computed active_market) \<noteq> Some 0"
    by (simp add: active_market_def Computed_default_def)
  from confirmation_gate[OF h, of default_settings 5000 5000123
        "Returns (Some (Fin 101))" "Returns (Some (Fin 100))" "[]"]
  have "fst (confirm_market default_settings 5000 5000123
          (Returns (Some (Fin 101))) (Returns (Some (Fin 100))) active_market) \<noteq> []"
    by (simp add: active_market_def Computed_default_def)
  then have a: "fst (confirm_market default_settings 5000 5000123
          (Returns (Some (Fin 101))) (Returns (Some (Fin 100))) active_market)
     = [var_get_quote_cb, lighter_vwap_cb]"
    by (auto simp: confirm_market_def Let_def split: if_splits)
  have b: "map confirm_summary (confirm_trace default_settings confirm_ticks active_market)
     = [(5000, True, Some 5000, Some (Fin 101)),
        (5010, False, Some 5000, Some (Fin 101)),
        (5030, True, Some 5030, Some (Fin 103))]"
    by code_simp
  show ?thesis using a b by (rule conjI)
qed

section \<open>Properties of the feed\<close>

lemma clamp_step:
  fixes x :: rat
  assumes "0 \<le> x"
  shows "min (min (x * (16/10)) 15 * (16/10) ^ k) 15 = min (x * (16/10) ^ Suc k) 15"
proof (cases "x * (16/10) \<le> 15")
  case True
  then show ?thesis by (simp add: mult.assoc)
next
  case False
  then have big: "15 < x * (16/10)" by simp
  have one: "(1::rat) \<le> (16/10) ^ k" by (rule one_le_power) simp
  have "15 * 1 \<le> 15 * (16/10 :: rat) ^ k" using one by (intro mult_left_mono) simp_all
  then have a: "min (15 * (16/10 :: rat) ^ k) 15 = 15" by simp
  have nn: "0 \<le> x * (16/10)" using assms by simp
  have "x * (16/10) * 1 \<le> x * (16/10) * (16/10) ^ k"
    using one nn by (rule mult_left_mono)
  then have le: "x * (16/10) \<le> x * (16/10) * (16/10) ^ k" by (simp only: mult_1_right)
  have "15 < x * (16/10) * (16/10) ^ k" using big le by (rule less_le_trans)
  then have "15 < x * (16/10) ^ Suc k" by (simp only: power_Suc mult.assoc)
  then have b: "min (x * (16/10) ^ Suc k) 15 = 15" by (simp only: min_def) simp
  have c: "min (x * (16/10)) 15 = 15" using big by (simp only: min_def) simp
  show ?thesis unfolding c a b ..
qed

lemma ws_loop_failures:
  assumes "0 \<le> b" and "b \<le> 15"
  shows "ws_loop b (replicate n ConnectFails) = map (\<lambda>k. min (b * (16/10) ^ k) 15) [0..<n]"
  using assms
proof (induction n arbitrary: b)
  case 0
  show ?case by simp
next
  case (Suc n)
  let ?b' = "min (b * (16/10)) 15"
  have nb: "0 \<le> ?b'" "?b' \<le> 15" using Suc.prems by simp_all
  have ih: "ws_loop ?b' (replicate n ConnectFails) = map (\<lambda>k. min (?b' * (16/10) ^ k) 15) [0..<n]"
    using Suc.IH[OF nb] .
  have shift: "map (\<lambda>k. min (?b' * (16/10) ^ k) 15) [0..<n]
             = map (\<lambda>k. min (b * (16/10) ^ Suc k) 15) [0..<n]"
    by (rule map_cong[OF refl]) (rule clamp_step[OF Suc.prems(1)])
  have u: "[0..<Suc n] = 0 # map Suc [0..<n]"
    by (simp add: upt_conv_Cons map_Suc_upt del: upt_Suc)
  have "map (\<lambda>k. min (b * (16/10) ^ k) 15) [0..<Suc n]
       = min b 15 # map (\<lambda>k. min (b * (16/10) ^ Suc k) 15) [0..<n]"
    unfolding u by (simp add: comp_def del: power_Suc)
  moreover have "min b 15 = b" using Suc.prems by simp
  moreover have "ws_loop b (replicate (Suc n) ConnectFails)
      = b # ws_loop ?b' (replicate n ConnectFails)" by simp
  ultimately show ?case using ih shift by (simp only:)
qed

lemma ws_loop_reset:
  assumes "\<forall>a\<in>set pre. retried a"
  shows "ws_loop b (pre @ ConnectedThenFails # rest) = ws_loop b pre @ 1 # ws_loop (16/10) rest"
  using assms
proof (induction pre arbitrary: b)
  case Nil
  show ?case by simp
next
  case (Cons a pre)
  then show ?case by (cases a) simp_all
qed

text \<open>
  Claim C5. From the start of the loop, consecutive failures sleep the delays
  \<open>min (1.6 ^ k) 15\<close> for \<open>k = 0, 1, 2, ...\<close>: the first is 1.0, each next is the previous
  times 1.6 clamped at 15.0, which gives 1.0, 1.6, 2.56, 4.096, 6.5536, 10.48576, 15.0,
  15.0. After any passes that were retried, a pass that connected and then failed sleeps
  1.0, and the failures after it sleep 1.6, 2.56, ... again: a successful connect resets
  the delay. The delays are exact rationals; a float rounds them in the last place.
\<close>

theorem reconnect_backoff:
  "lighter_ws_loop (replicate n ConnectFails) = map (\<lambda>k. min ((16/10) ^ k) 15) [0..<n]
   \<and> lighter_ws_loop (replicate 8 ConnectFails)
       = [1, 16/10, 256/100, 4096/1000, 65536/10000, 1048576/100000, 15, 15]
   \<and> ((\<forall>a\<in>set pre. retried a) \<longrightarrow>
        lighter_ws_loop (pre @ ConnectedThenFails # replicate n ConnectFails)
          = lighter_ws_loop pre @ 1 # map (\<lambda>k. min ((16/10) ^ Suc k) 15) [0..<n])"
proof -
  have 1: "lighter_ws_loop (replicate n ConnectFails) = map (\<lambda>k. min ((16/10) ^ k) 15) [0..<n]"
    using ws_loop_failures[of 1 n] by (simp add: lighter_ws_loop_def)
  have 2: "lighter_ws_loop (replicate 8 ConnectFails)
       = [1, 16/10, 256/100, 4096/1000, 65536/10000, 1048576/100000, 15, 15]"
    by (simp add: lighter_ws_loop_def eval_nat_numeral)
  have r: "ws_loop (16/10) (replicate n ConnectFails)
       = map (\<lambda>k. min ((16/10) ^ Suc k) 15) [0..<n]"
    using ws_loop_failures[of "16/10" n] by simp
  have 3: "(\<forall>a\<in>set pre. retried a) \<longrightarrow>
        lighter_ws_loop (pre @ ConnectedThenFails # replicate n ConnectFails)
          = lighter_ws_loop pre @ 1 # map (\<lambda>k. min ((16/10) ^ Suc k) 15) [0..<n]"
    unfolding lighter_ws_loop_def
    using ws_loop_reset[of pre 1 "replicate n ConnectFails"] r by simp
  show ?thesis by (intro conjI) (fact 1, fact 2, fact 3)
qed

theorem reconnect_backoff_witness:
  "lighter_ws_loop [ConnectFails, ConnectFails, ConnectedThenFails, ConnectFails, ConnectFails]
     = [1, 16/10, 1, 16/10, 256/100]"
proof -
  have p: "\<forall>a\<in>set [ConnectFails, ConnectFails]. retried a" by simp
  have "lighter_ws_loop ([ConnectFails, ConnectFails] @ ConnectedThenFails # replicate 2 ConnectFails)
          = lighter_ws_loop [ConnectFails, ConnectFails]
              @ 1 # map (\<lambda>k. min ((16/10) ^ Suc k) 15) [0..<2]"
    using reconnect_backoff[of 2 "[ConnectFails, ConnectFails]"] p by blast
  then show ?thesis
    by (simp add: lighter_ws_loop_def eval_nat_numeral upt_rec)
qed

lemma first_present_index:
  "first_present d ks = Some v \<longleftrightarrow>
     (\<exists>i<length ks. d (ks ! i) = Some v \<and> v \<noteq> JNull
        \<and> (\<forall>j<i. d (ks ! j) = None \<or> d (ks ! j) = Some JNull))"
proof (induction ks)
  case Nil
  show ?case by simp
next
  case (Cons k ks)
  show ?case
  proof (cases "d k = None \<or> d k = Some JNull")
    case True
    then have f: "first_present d (k # ks) = first_present d ks" by auto
    show ?thesis unfolding f Cons.IH
    proof
      assume "\<exists>i<length ks. d (ks ! i) = Some v \<and> v \<noteq> JNull
        \<and> (\<forall>j<i. d (ks ! j) = None \<or> d (ks ! j) = Some JNull)"
      then obtain i where i: "i < length ks" "d (ks ! i) = Some v" "v \<noteq> JNull"
        "\<forall>j<i. d (ks ! j) = None \<or> d (ks ! j) = Some JNull" by blast
      have "\<forall>j<Suc i. d ((k # ks) ! j) = None \<or> d ((k # ks) ! j) = Some JNull"
        using i(4) True by (auto simp: less_Suc_eq_0_disj)
      then show "\<exists>i<length (k # ks). d ((k # ks) ! i) = Some v \<and> v \<noteq> JNull
        \<and> (\<forall>j<i. d ((k # ks) ! j) = None \<or> d ((k # ks) ! j) = Some JNull)"
        using i(1,2,3) by (intro exI[of _ "Suc i"]) simp
    next
      assume "\<exists>i<length (k # ks). d ((k # ks) ! i) = Some v \<and> v \<noteq> JNull
        \<and> (\<forall>j<i. d ((k # ks) ! j) = None \<or> d ((k # ks) ! j) = Some JNull)"
      then obtain i where i: "i < length (k # ks)" "d ((k # ks) ! i) = Some v" "v \<noteq> JNull"
        "\<forall>j<i. d ((k # ks) ! j) = None \<or> d ((k # ks) ! j) = Some JNull" by blast
      from i(2,3) True have "i \<noteq> 0" by (cases i) auto
      then obtain i' where i': "i = Suc i'" by (cases i) auto
      have "\<forall>j<i'. d (ks ! j) = None \<or> d (ks ! j) = Some JNull"
        using i(4) unfolding i' by (metis Suc_less_eq nth_Cons_Suc)
      then show "\<exists>i<length ks. d (ks ! i) = Some v \<and> v \<noteq> JNull
        \<and> (\<forall>j<i. d (ks ! j) = None \<or> d (ks ! j) = Some JNull)"
        using i(1,2,3) unfolding i' by (intro exI[of _ i']) simp
    qed
  next
    case False
    then obtain w where w: "d k = Some w" "w \<noteq> JNull" by auto
    then have f: "first_present d (k # ks) = Some w" by simp
    show ?thesis unfolding f
    proof
      assume "Some w = Some v"
      then show "\<exists>i<length (k # ks). d ((k # ks) ! i) = Some v \<and> v \<noteq> JNull
        \<and> (\<forall>j<i. d ((k # ks) ! j) = None \<or> d ((k # ks) ! j) = Some JNull)"
        using w by (intro exI[of _ 0]) simp
    next
      assume "\<exists>i<length (k # ks). d ((k # ks) ! i) = Some v \<and> v \<noteq> JNull
        \<and> (\<forall>j<i. d ((k # ks) ! j) = None \<or> d ((k # ks) ! j) = Some JNull)"
      then obtain i where i: "d ((k # ks) ! i) = Some v"
        "\<forall>j<i. d ((k # ks) ! j) = None \<or> d ((k # ks) ! j) = Some JNull" by blast
      have "i = 0"
      proof (rule ccontr)
        assume "i \<noteq> 0"
        then have "d ((k # ks) ! 0) = None \<or> d ((k # ks) ! 0) = Some JNull" using i(2) by blast
        then show False using w by simp
      qed
      then show "Some w = Some v" using i(1) w by simp
    qed
  qed
qed

lemma pick_unfold:
  "pick_best_bid_ask pf d =
     ((case explicit_price pf d bid_keys of None \<Rightarrow> mark_fallback pf d | Some x \<Rightarrow> Some x),
      (case explicit_price pf d ask_keys of None \<Rightarrow> mark_fallback pf d | Some x \<Rightarrow> Some x))"
  by (auto simp: pick_best_bid_ask_def explicit_price_def mark_fallback_def Let_def
      split: option.splits)

lemma first_present_cong:
  "(\<forall>k\<in>set ks. d k = d' k) \<Longrightarrow> first_present d ks = first_present d' ks"
  by (induction ks) (auto split: option.splits)

lemma pick_ignores_other_keys:
  assumes "k \<notin> set bid_keys" "k \<notin> set ask_keys" "k \<noteq> ''mark_price''" "k \<noteq> ''markPrice''"
  shows "pick_best_bid_ask pf (d(k := v)) = pick_best_bid_ask pf d"
proof -
  have b: "first_present (d(k := v)) bid_keys = first_present d bid_keys"
    using assms(1) by (intro first_present_cong) auto
  have a: "first_present (d(k := v)) ask_keys = first_present d ask_keys"
    using assms(2) by (intro first_present_cong) auto
  have m: "jget (d(k := v)) ''mark_price'' = jget d ''mark_price''"
    "jget (d(k := v)) ''markPrice'' = jget d ''markPrice''"
    using assms(3,4) by (simp_all add: jget_def)
  show ?thesis by (simp only: pick_best_bid_ask_def a b m)
qed

text \<open>
  Claim C8 (as amended). For each side \<open>_pick_best_bid_ask\<close> takes the value under the
  first of the ordered keys (\<open>best_bid\<close>, \<open>bid\<close>, \<open>bid_price\<close>, \<open>bestBid\<close>, \<open>bestBidPrice\<close>
  and the ask analogues) that is present and not null, converted to a float; a side that
  gets no value this way takes the mark price, read from \<open>mark_price\<close> or, when that is
  absent or falsy, from \<open>markPrice\<close>. So when neither side is resolvable from the explicit
  fields, both get the same single value, the mark price. The index price is never
  consulted: setting or removing \<open>index_price\<close> and \<open>indexPrice\<close> changes nothing.
\<close>

theorem pick_bid_ask_fallback:
  "pick_best_bid_ask pf d =
     ((case explicit_price pf d bid_keys of None \<Rightarrow> mark_fallback pf d | Some x \<Rightarrow> Some x),
      (case explicit_price pf d ask_keys of None \<Rightarrow> mark_fallback pf d | Some x \<Rightarrow> Some x))
   \<and> (explicit_price pf d bid_keys = None \<and> explicit_price pf d ask_keys = None \<longrightarrow>
        pick_best_bid_ask pf d = (mark_fallback pf d, mark_fallback pf d))
   \<and> (first_present d ks = Some v \<longleftrightarrow>
        (\<exists>i<length ks. d (ks ! i) = Some v \<and> v \<noteq> JNull
           \<and> (\<forall>j<i. d (ks ! j) = None \<or> d (ks ! j) = Some JNull)))
   \<and> mark_fallback pf d =
        to_float pf (if jtruthy (jget d ''mark_price'') then jget d ''mark_price''
                     else jget d ''markPrice'')
   \<and> pick_best_bid_ask pf (d(''index_price'' := x, ''indexPrice'' := y)) = pick_best_bid_ask pf d"
proof -
  note 1 = pick_unfold[of pf d]
  have 2: "explicit_price pf d bid_keys = None \<and> explicit_price pf d ask_keys = None \<longrightarrow>
        pick_best_bid_ask pf d = (mark_fallback pf d, mark_fallback pf d)"
    by (simp add: pick_unfold)
  note 3 = first_present_index[of d ks v]
  have 4: "mark_fallback pf d =
        to_float pf (if jtruthy (jget d ''mark_price'') then jget d ''mark_price''
                     else jget d ''markPrice'')"
    by (simp add: mark_fallback_def jor_def)
  have 5: "pick_best_bid_ask pf (d(''index_price'' := x, ''indexPrice'' := y)) = pick_best_bid_ask pf d"
  proof -
    have "pick_best_bid_ask pf ((d(''index_price'' := x))(''indexPrice'' := y))
        = pick_best_bid_ask pf (d(''index_price'' := x))"
      by (rule pick_ignores_other_keys) (simp_all add: bid_keys_def ask_keys_def)
    also have "\<dots> = pick_best_bid_ask pf d"
      by (rule pick_ignores_other_keys) (simp_all add: bid_keys_def ask_keys_def)
    finally show ?thesis .
  qed
  show ?thesis by (intro conjI) (fact 1, fact 2, fact 3, fact 4, fact 5)
qed

theorem pick_bid_ask_fallback_counterexample:
  "index_only ''index_price'' = Some (JNum (Fin 100))
   \<and> pick_best_bid_ask rejects_all index_only = (None, None)"
  by (simp add: index_only_def pick_best_bid_ask_def bid_keys_def ask_keys_def jget_def jor_def)

theorem pick_bid_ask_fallback_witness:
  "pick_best_bid_ask rejects_all mark_only = (Some (Fin 100), Some (Fin 100))"
proof -
  have e: "explicit_price rejects_all mark_only bid_keys = None
         \<and> explicit_price rejects_all mark_only ask_keys = None"
    by (simp add: explicit_price_def mark_only_def bid_keys_def ask_keys_def)
  have m: "mark_fallback rejects_all mark_only = Some (Fin 100)"
    by (simp add: mark_fallback_def mark_only_def jget_def jor_def)
  from pick_bid_ask_fallback[of rejects_all mark_only "[]" JNull None None] e
  have "pick_best_bid_ask rejects_all mark_only
      = (mark_fallback rejects_all mark_only, mark_fallback rejects_all mark_only)"
    by blast
  then show ?thesis by (simp only: m)
qed

section \<open>Properties of the backend\<close>

lemma deque_append_maxlen: "maxlen (deque_append dq x) = maxlen dq"
  by (simp add: deque_append_def Let_def)

lemma deque_append_full:
  "length (items dq) = maxlen dq \<Longrightarrow> items (deque_append dq x) = tl (items dq @ [x])"
  by (simp add: deque_append_def Let_def)

lemma deque_append_room:
  "length (items dq) < maxlen dq \<Longrightarrow> items (deque_append dq x) = items dq @ [x]"
  by (simp add: deque_append_def Let_def)

lemma tl_drop_Suc: "tl (drop k zs) = drop (Suc k) zs"
  by (simp add: drop_Suc drop_tl)

lemma deque_keeps_last:
  "items (foldl deque_append (deque_new n) xs) = drop (length xs - n) xs
   \<and> maxlen (foldl deque_append (deque_new n) xs) = n"
proof (induction xs rule: rev_induct)
  case Nil
  show ?case by (simp add: deque_new_def)
next
  case (snoc x xs)
  let ?dq = "foldl deque_append (deque_new n) xs"
  from snoc have i: "items ?dq = drop (length xs - n) xs" and m: "maxlen ?dq = n" by simp_all
  have ml: "maxlen (foldl deque_append (deque_new n) (xs @ [x])) = n"
    using m by (simp add: deque_append_maxlen)
  show ?case
  proof (cases "length xs < n")
    case True
    then have "items (deque_append ?dq x) = xs @ [x]"
      using i m by (simp add: deque_append_def Let_def)
    then show ?thesis using True ml by simp
  next
    case False
    then have len: "length (items ?dq) = n" using i by simp
    have "items (deque_append ?dq x) = tl (drop (length xs - n) xs @ [x])"
      using len m i by (simp add: deque_append_def Let_def)
    also have "\<dots> = tl (drop (length xs - n) (xs @ [x]))" using False by simp
    also have "\<dots> = drop (Suc (length xs - n)) (xs @ [x])" by (rule tl_drop_Suc)
    also have "Suc (length xs - n) = length (xs @ [x]) - n" using False by simp
    finally show ?thesis using ml by simp
  qed
qed

lemma series_points_filter:
  "series_points cutoff metric pts =
     map (\<lambda>(t, usd, bps). (t, if metric = text_of ''bps'' then bps else usd))
         (filter (\<lambda>(t, usd, bps). cutoff \<le> t) pts)"
  by (induction pts) auto

lemma push_point_pushes:
  assumes "strip (upper B b) \<noteq> []"
  shows "push_point B n now b mode (Some usd) (Some bps) s =
     s\<lparr>SPREAD_SERIES := (SPREAD_SERIES s)(push_key B b mode \<mapsto>
          deque_append (case SPREAD_SERIES s (push_key B b mode) of None \<Rightarrow> deque_new n | Some dq \<Rightarrow> dq)
            (now, usd, bps))\<rparr>"
  using assms by (simp add: push_point_def push_key_def Let_def)

lemma push_point_skips:
  "su = None \<or> sb = None \<or> strip (upper B b) = [] \<Longrightarrow> push_point B n now b mode su sb s = s"
  by (auto simp: push_point_def Let_def split: option.splits)

lemma push_point_capacity:
  assumes "SPREAD_SERIES s key = Some dq"
  shows "\<exists>dq'. SPREAD_SERIES (push_point B n now b mode su sb s) key = Some dq'
            \<and> maxlen dq' = maxlen dq"
proof (cases "su = None \<or> sb = None \<or> strip (upper B b) = []")
  case True
  then show ?thesis using assms by (simp add: push_point_skips)
next
  case False
  then obtain usd bps where v: "su = Some usd" "sb = Some bps" and b: "strip (upper B b) \<noteq> []"
    by auto
  show ?thesis
    unfolding v push_point_pushes[OF b] using assms
    by (cases "key = push_key B b mode") (simp_all add: deque_append_maxlen)
qed


lemma chart_series_points:
  assumes "parse_window_s B window = Inr win_s"
  shows "chart_series B now base' window metric mode s =
     Inr (case SPREAD_SERIES s (strip (upper B base'), strip (if mode = [] then default_mode else mode)) of
            None \<Rightarrow> []
          | Some dq \<Rightarrow>
              map (\<lambda>(t, usd, bps).
                     (t, if strip (lower B (if metric = [] then text_of ''bps'' else metric)) = text_of ''bps''
                         then bps else usd))
                  (filter (\<lambda>(t, usd, bps). now - win_s * 1000 \<le> t) (items dq)))"
  using assms
  by (simp add: chart_series_def Let_def series_points_filter split: option.splits)

lemma MAX_POINTS_ge: "50 \<le> MAX_POINTS x"
  by (simp add: MAX_POINTS_def)

lemma py_round_int: "py_round (of_int k) = k"
  by (simp add: py_round_def Let_def)


















lemma text_of_empty: "(text_of s = []) = (s = [])"
  by (simp add: text_of_def)

lemma strip_upper_eth: "strip (upper B (text_of ''eth'')) = text_of ''ETH''"
  by code_simp

lemma demo_window: "parse_window_s demo_builtins (text_of ''1'') = Inr 1"
  by code_simp


lemma strip_default_mode: "strip default_mode = default_mode"
  by code_simp

lemma usd_metric: "strip (lower B (text_of ''usd'')) = text_of ''usd''"
  by code_simp

lemma usd_not_bps: "text_of ''usd'' \<noteq> text_of ''bps''"
  by code_simp
















text \<open>
  Claim C9. A series buffer keeps the capacity it was created with: pushing a point, under
  any key, leaves the capacity of every existing buffer as it was, and a push that files a
  sample appends it to the key's buffer, created with capacity \<open>MAX_POINTS\<close> (at
  least 50) when the key is new. Appending to a buffer with room adds the sample at the
  end; appending to a full buffer of capacity \<open>N > 0\<close> drops exactly the oldest sample and
  adds the new one at the end, so a buffer always holds the last \<open>N\<close> samples pushed, in
  order. A query whose window parses returns exactly the retained samples whose time is
  at or after the cutoff \<open>now - window\<close>, in the buffer's order, newest last, each as its
  time and the chosen metric.
\<close>

theorem series_buffer:
  "(SPREAD_SERIES s key = Some dq \<longrightarrow>
      (\<exists>dq'. SPREAD_SERIES (push_point B n now b mode su sb s) key = Some dq'
              \<and> maxlen dq' = maxlen dq))
   \<and> (strip (upper B b) \<noteq> [] \<longrightarrow>
        SPREAD_SERIES (push_point B n now b mode (Some usd) (Some bps) s) (push_key B b mode)
          = Some (deque_append
                    (case SPREAD_SERIES s (push_key B b mode) of
                       None \<Rightarrow> deque_new n
                     | Some dq0 \<Rightarrow> dq0)
                    (now, usd, bps)))
   \<and> maxlen (deque_append dq x) = maxlen dq
   \<and> (length (items dq) < maxlen dq \<longrightarrow> items (deque_append dq x) = items dq @ [x])
   \<and> (length (items dq) = maxlen dq \<and> 0 < maxlen dq \<longrightarrow>
        items (deque_append dq x) = tl (items dq) @ [x])
   \<and> items (foldl deque_append (deque_new n) xs) = drop (length xs - n) xs
   \<and> 50 \<le> MAX_POINTS sample_every_s
   \<and> (parse_window_s B window = Inr win_s \<longrightarrow>
        chart_series B now base' window metric mode s =
          Inr (case SPREAD_SERIES s (strip (upper B base'),
                                     strip (if mode = [] then default_mode else mode)) of
                 None \<Rightarrow> []
               | Some dq \<Rightarrow>
                   map (\<lambda>(t, usd, bps).
                          (t, if strip (lower B (if metric = [] then text_of ''bps'' else metric)) = text_of ''bps''
                              then bps else usd))
                       (filter (\<lambda>(t, usd, bps). now - win_s * 1000 \<le> t) (items dq))))"
proof -
  have 1: "SPREAD_SERIES s key = Some dq \<longrightarrow>
      (\<exists>dq'. SPREAD_SERIES (push_point B n now b mode su sb s) key = Some dq'
              \<and> maxlen dq' = maxlen dq)"
    using push_point_capacity[of s key dq B n now b mode su sb] by blast
  have 2: "strip (upper B b) \<noteq> [] \<longrightarrow>
        SPREAD_SERIES (push_point B n now b mode (Some usd) (Some bps) s) (push_key B b mode)
          = Some (deque_append
                    (case SPREAD_SERIES s (push_key B b mode) of
                       None \<Rightarrow> deque_new n
                     | Some dq0 \<Rightarrow> dq0)
                    (now, usd, bps))"
    by (simp add: push_point_pushes)
  note 3 = deque_append_maxlen[of dq x]
  have 4: "length (items dq) < maxlen dq \<longrightarrow> items (deque_append dq x) = items dq @ [x]"
    by (simp add: deque_append_room)
  have 5: "length (items dq) = maxlen dq \<and> 0 < maxlen dq \<longrightarrow>
        items (deque_append dq x) = tl (items dq) @ [x]"
  proof (intro impI, elim conjE)
    assume l: "length (items dq) = maxlen dq" and p: "0 < maxlen dq"
    then have "items dq \<noteq> []" by auto
    then show "items (deque_append dq x) = tl (items dq) @ [x]"
      using deque_append_full[OF l, of x] by simp
  qed
  have 6: "items (foldl deque_append (deque_new n) xs) = drop (length xs - n) xs"
    using deque_keeps_last[of n xs] by blast
  note 7 = MAX_POINTS_ge[of sample_every_s]
  have 8: "parse_window_s B window = Inr win_s \<longrightarrow>
        chart_series B now base' window metric mode s =
          Inr (case SPREAD_SERIES s (strip (upper B base'),
                                     strip (if mode = [] then default_mode else mode)) of
                 None \<Rightarrow> []
               | Some dq \<Rightarrow>
                   map (\<lambda>(t, usd, bps).
                          (t, if strip (lower B (if metric = [] then text_of ''bps'' else metric)) = text_of ''bps''
                              then bps else usd))
                       (filter (\<lambda>(t, usd, bps). now - win_s * 1000 \<le> t) (items dq)))"
    using chart_series_points[of B window win_s now base' metric mode s] by blast
  show ?thesis
    by (intro conjI) (fact 1, fact 2, fact 3, fact 4, fact 5, fact 6, fact 7, fact 8)
qed

theorem series_buffer_witness:
  "SPREAD_SERIES (push_point demo_builtins 2 3000 (text_of ''eth'') [] (Some (Fin 3)) (Some (Fin 30)) chart_state)
       (text_of ''ETH'', default_mode)
     = Some \<lparr>maxlen = 2, items = [(2000, Fin 2, Fin 20), (3000, Fin 3, Fin 30)]\<rparr>
   \<and> chart_series demo_builtins 3000 (text_of ''eth'') (text_of ''1'') (text_of ''usd'') [] chart_state = Inr [(2000, Fin 2)]"
proof -
  have k: "push_key demo_builtins (text_of ''eth'') [] = (text_of ''ETH'', default_mode)"
    by (simp add: push_key_def strip_upper_eth strip_default_mode) (simp add: strip_def)
  have ne: "strip (upper demo_builtins (text_of ''eth'')) \<noteq> []"
    by (simp add: strip_upper_eth text_of_empty)
  note t = series_buffer[where s = chart_state and key = "(text_of ''ETH'', default_mode)"
      and B = demo_builtins and n = 2 and now = 3000 and b = "text_of ''eth''" and mode = "[]"
      and usd = "Fin 3" and bps = "Fin 30" and window = "text_of ''1''" and win_s = 1
      and base' = "text_of ''eth''" and metric = "text_of ''usd''"]
  from t ne have "SPREAD_SERIES (push_point demo_builtins 2 3000 (text_of ''eth'') [] (Some (Fin 3)) (Some (Fin 30)) chart_state)
        (push_key demo_builtins (text_of ''eth'') [])
          = Some (deque_append
                    (case SPREAD_SERIES chart_state (push_key demo_builtins (text_of ''eth'') []) of
                       None \<Rightarrow> deque_new 2
                     | Some dq0 \<Rightarrow> dq0)
                    (3000, Fin 3, Fin 30))"
    by blast
  then have a: "SPREAD_SERIES (push_point demo_builtins 2 3000 (text_of ''eth'') [] (Some (Fin 3)) (Some (Fin 30)) chart_state)
       (text_of ''ETH'', default_mode)
     = Some \<lparr>maxlen = 2, items = [(2000, Fin 2, Fin 20), (3000, Fin 3, Fin 30)]\<rparr>"
    by (simp add: k chart_state_def deque_append_def)
  have b: "chart_series demo_builtins 3000 (text_of ''eth'') (text_of ''1'') (text_of ''usd'') [] chart_state = Inr [(2000, Fin 2)]"
    by (simp add: chart_series_def demo_window strip_upper_eth chart_state_def Let_def
        text_of_empty strip_default_mode usd_metric usd_not_bps)
  show ?thesis using a b by (rule conjI)
qed



end
